theory Spec2Isabelle
  imports Complex_Main "HOL-Library.AList" "HOL-Library.Word"
begin

section \<open>JavaScript values\<close>

text \<open>
  A JavaScript number is a finite value, \<open>NaN\<close> or one of the two infinities.  Only
  finiteness, comparison with zero and truthiness of numbers are used below, no arithmetic;
  \<open>-0\<close> is identified with \<open>0\<close> (both are falsy, both satisfy \<open>>= 0\<close>).
\<close>

datatype jsnum = Finite real | NaN | PosInfinity | NegInfinity

text \<open>The comparison \<open>a <= b\<close> of two numbers: false as soon as one side is \<open>NaN\<close>.\<close>

fun jsnum_le :: "jsnum \<Rightarrow> jsnum \<Rightarrow> bool" where
  "jsnum_le (Finite a) (Finite b) = (a \<le> b)"
| "jsnum_le NaN _ = False"
| "jsnum_le _ NaN = False"
| "jsnum_le NegInfinity _ = True"
| "jsnum_le _ PosInfinity = True"
| "jsnum_le _ _ = False"

fun Number_isFinite :: "jsnum \<Rightarrow> bool" where
  "Number_isFinite (Finite r) = True"
| "Number_isFinite _ = False"

text \<open>
  The exceptions that the modelled code throws: a \<open>TypeError\<close> of the runtime, and the
  \<open>Error\<close> of \<open>SessionManager.update\<close> for a connection without a session.
\<close>

datatype exception = TypeError | NoSessionFound string

text \<open>
  The values that reach the bridge are parsed JSON.  An object is its list of entries in
  insertion order, each key occurring once; \<open>undefined\<close> (a missing property) is
  \<open>None\<close> of \<open>json option\<close>.
  A character of a \<open>string\<close> stands for one character of the JavaScript string.
\<close>

datatype json = JNull | JBool bool | JNum jsnum | JStr string | JArr "json list"
  | JObj "(string \<times> json) list"

datatype js_type = T_undefined | T_object | T_boolean | T_number | T_string

fun typeof :: "json option \<Rightarrow> js_type" where
  "typeof None = T_undefined"
| "typeof (Some JNull) = T_object"
| "typeof (Some (JBool b)) = T_boolean"
| "typeof (Some (JNum n)) = T_number"
| "typeof (Some (JStr s)) = T_string"
| "typeof (Some (JArr xs)) = T_object"
| "typeof (Some (JObj kvs)) = T_object"

text \<open>Truthiness: \<open>undefined\<close>, \<open>null\<close>, \<open>false\<close>, \<open>0\<close>, \<open>NaN\<close> and \<open>""\<close> are falsy.\<close>

fun truthy :: "json option \<Rightarrow> bool" where
  "truthy None = False"
| "truthy (Some JNull) = False"
| "truthy (Some (JBool b)) = b"
| "truthy (Some (JNum n)) = (n \<noteq> Finite 0 \<and> n \<noteq> NaN)"
| "truthy (Some (JStr s)) = (s \<noteq> [])"
| "truthy (Some (JArr xs)) = True"
| "truthy (Some (JObj kvs)) = True"

text \<open>Decimal rendering of a natural number (array indices as property keys, \<open>str(int)\<close>).\<close>

definition digit_char :: "nat \<Rightarrow> char" where
  "digit_char d = char_of (48 + d)"

fun show_nat :: "nat \<Rightarrow> string" where
  "show_nat n = (if n < 10 then [digit_char n] else show_nat (n div 10) @ [digit_char (n mod 10)])"

declare show_nat.simps [simp del]

definition array_entries :: "json list \<Rightarrow> (string \<times> json) list" where
  "array_entries xs = zip (map show_nat [0..<length xs]) xs"

text \<open>\<open>Object.entries\<close>; it is only applied to values whose \<open>typeof\<close> is \<open>"object"\<close>.\<close>

fun Object_entries :: "json \<Rightarrow> (string \<times> json) list" where
  "Object_entries (JObj kvs) = kvs"
| "Object_entries (JArr xs) = array_entries xs"
| "Object_entries _ = []"

text \<open>
  Property read \<open>raw.k\<close> on a parsed JSON value, for a name \<open>k\<close> that the prototypes
  of objects and arrays do not define: the own property, if there is one.
\<close>

fun get_prop :: "json \<Rightarrow> string \<Rightarrow> json option" where
  "get_prop (JObj kvs) k = map_of kvs k"
| "get_prop (JArr xs) k =
     (if k = ''length'' then Some (JNum (Finite (real (length xs)))) else map_of (array_entries xs) k)"
| "get_prop _ k = None"

text \<open>
  \<open>String.prototype.trim\<close> removes white space and line terminators at both ends; of
  these, the characters in the 8-bit range are TAB, LF, VT, FF, CR, SP and NBSP.
\<close>

definition is_whitespace :: "char \<Rightarrow> bool" where
  "is_whitespace c \<longleftrightarrow>
     c \<in> set [CHR 0x09, CHR 0x0A, CHR 0x0B, CHR 0x0C, CHR 0x0D, CHR '' '', CHR 0xA0]"

definition trim :: "string \<Rightarrow> string" where
  "trim s = rev (dropWhile is_whitespace (rev (dropWhile is_whitespace s)))"

text \<open>
  \<open>Number(v)\<close>.  The conversion of a string to a number and the rendering of a number as
  a string are built-ins of the language; they are parameters of the model.

  An array is converted through \<open>Array.prototype.join\<close>: \<open>null\<close> renders as the empty
  string, a nested array is joined in turn, and an object renders as \<open>[object Object]\<close>
  unless it has an own property \<open>toString\<close>.  Such a property of a parsed JSON object is
  not callable, no primitive value is obtained, and the conversion throws a \<open>TypeError\<close>;
  so does \<open>Number\<close> of such an object itself.
\<close>

record Builtins =
  StringToNumber :: "string \<Rightarrow> jsnum"
  NumberToString :: "jsnum \<Rightarrow> string"

fun array_join_element :: "Builtins \<Rightarrow> json \<Rightarrow> exception + string"
and array_join :: "Builtins \<Rightarrow> json list \<Rightarrow> exception + string" where
  "array_join_element B JNull = Inr []"
| "array_join_element B (JBool b) = Inr (if b then ''true'' else ''false'')"
| "array_join_element B (JNum n) = Inr (NumberToString B n)"
| "array_join_element B (JStr s) = Inr s"
| "array_join_element B (JArr xs) = array_join B xs"
| "array_join_element B (JObj kvs) =
     (if map_of kvs ''toString'' \<noteq> None then Inl TypeError else Inr ''[object Object]'')"
| "array_join B [] = Inr []"
| "array_join B [x] = array_join_element B x"
| "array_join B (x # y # ys) =
     (case array_join_element B x of
        Inl e \<Rightarrow> Inl e
      | Inr s \<Rightarrow>
          (case array_join B (y # ys) of
             Inl e \<Rightarrow> Inl e
           | Inr t \<Rightarrow> Inr (s @ '','' @ t)))"

fun Number_js :: "Builtins \<Rightarrow> json option \<Rightarrow> exception + jsnum" where
  "Number_js B None = Inr NaN"
| "Number_js B (Some JNull) = Inr (Finite 0)"
| "Number_js B (Some (JBool b)) = Inr (Finite (if b then 1 else 0))"
| "Number_js B (Some (JNum n)) = Inr n"
| "Number_js B (Some (JStr s)) = Inr (StringToNumber B s)"
| "Number_js B (Some (JArr xs)) =
     (case array_join B xs of Inl e \<Rightarrow> Inl e | Inr s \<Rightarrow> Inr (StringToNumber B s))"
| "Number_js B (Some (JObj kvs)) =
     (if map_of kvs ''toString'' \<noteq> None then Inl TypeError
      else Inr (StringToNumber B ''[object Object]''))"

text \<open>
  \<open>JSON.stringify\<close>, as the value that the produced text denotes: a number that is not
  finite is written as \<open>null\<close>; everything else is written as it is.
\<close>

fun JSON_wire :: "json \<Rightarrow> json" where
  "JSON_wire (JNum n) = (if Number_isFinite n then JNum n else JNull)"
| "JSON_wire (JArr xs) = JArr (map JSON_wire xs)"
| "JSON_wire (JObj kvs) = JObj (map (map_prod id JSON_wire) kvs)"
| "JSON_wire JNull = JNull"
| "JSON_wire (JBool b) = JBool b"
| "JSON_wire (JStr s) = JStr s"

text \<open>
  A JavaScript \<open>Map\<close> keeps its entries in insertion order: \<open>set\<close> replaces the value of
  a present key in place and appends an absent one, \<open>delete\<close> removes the entry.  The same
  operations serve for property assignment on a plain object.
\<close>

type_synonym ('k, 'v) Map = "('k \<times> 'v) list"

definition Map_get :: "('k, 'v) Map \<Rightarrow> 'k \<Rightarrow> 'v option" where
  "Map_get m k = map_of m k"

definition Map_has :: "('k, 'v) Map \<Rightarrow> 'k \<Rightarrow> bool" where
  "Map_has m k = (map_of m k \<noteq> None)"

definition Map_set :: "'k \<Rightarrow> 'v \<Rightarrow> ('k, 'v) Map \<Rightarrow> ('k, 'v) Map" where
  "Map_set k v m = AList.update k v m"

definition Map_delete :: "'k \<Rightarrow> ('k, 'v) Map \<Rightarrow> ('k, 'v) Map" where
  "Map_delete k m = AList.delete k m"

section \<open>The session manager (session-manager.ts)\<close>

datatype lang = Auto | En | Ar

text \<open>
  \<open>SessionContext\<close> is the five-field context of eyes.ts; the row kept by the session
  manager (which eyes.ts imports as \<open>SessionManagerContext\<close>) has the two timestamps as
  well.  Timestamps are the integer milliseconds of \<open>Date.now()\<close>.
\<close>

record SessionContext =
  session_id :: string
  user_id :: "string option"
  lang :: lang
  budget_tokens :: jsnum
  tenant :: "string option"

record SessionManagerContext = SessionContext +
  created_at :: int
  last_activity :: int

text \<open>\<open>Partial<SessionContext>\<close>: each field present or not.\<close>

record SessionUpdates =
  upd_session_id :: "string option"
  upd_user_id :: "string option option"
  upd_lang :: "lang option"
  upd_budget_tokens :: "jsnum option"
  upd_tenant :: "string option option"
  upd_created_at :: "int option"
  upd_last_activity :: "int option"

definition Object_assign :: "SessionManagerContext \<Rightarrow> SessionUpdates \<Rightarrow> SessionManagerContext" where
  "Object_assign session updates =
     \<lparr> session_id = (case upd_session_id updates of Some v \<Rightarrow> v | None \<Rightarrow> session_id session),
       user_id = (case upd_user_id updates of Some v \<Rightarrow> v | None \<Rightarrow> user_id session),
       lang = (case upd_lang updates of Some v \<Rightarrow> v | None \<Rightarrow> lang session),
       budget_tokens = (case upd_budget_tokens updates of Some v \<Rightarrow> v | None \<Rightarrow> budget_tokens session),
       tenant = (case upd_tenant updates of Some v \<Rightarrow> v | None \<Rightarrow> tenant session),
       created_at = (case upd_created_at updates of Some v \<Rightarrow> v | None \<Rightarrow> created_at session),
       last_activity = (case upd_last_activity updates of Some v \<Rightarrow> v | None \<Rightarrow> last_activity session) \<rparr>"

record SessionManager =
  sessions :: "(string, SessionManagerContext) Map"
  connectionToSession :: "(string, string) Map"

definition new_SessionManager :: SessionManager where
  "new_SessionManager = \<lparr> sessions = [], connectionToSession = [] \<rparr>"

definition sessionTimeout :: int where
  "sessionTimeout = 30 * 60 * 1000"

text \<open>
  What the runtime hands to one minting of a session: the two pieces of the id,
  \<open>Date.now().toString(36)\<close> and \<open>Math.random().toString(36).slice(2, 9)\<close>, and the two
  later readings of the clock stored as \<open>created_at\<close> and \<open>last_activity\<close>.
\<close>

record Mint =
  stamp36 :: string
  rand36 :: string
  t_created :: int
  t_activity :: int

definition mint_session_id :: "Mint \<Rightarrow> string" where
  "mint_session_id m = ''sess-'' @ stamp36 m @ ''-'' @ rand36 m"

text \<open>
  The lookup shared by \<open>getOrCreate\<close>, \<open>update\<close> and \<open>get\<close>:
  \<open>sessionId = connectionToSession.get(connectionId)\<close>, the test
  \<open>sessionId && sessions.has(sessionId)\<close> and then \<open>sessions.get(sessionId)!\<close>.
\<close>

definition lookup_session :: "SessionManager \<Rightarrow> string \<Rightarrow> (string \<times> SessionManagerContext) option" where
  "lookup_session this connectionId =
     (case Map_get (connectionToSession this) connectionId of
        None \<Rightarrow> None
      | Some sessionId \<Rightarrow>
          if sessionId \<noteq> [] \<and> Map_has (sessions this) sessionId
          then (case Map_get (sessions this) sessionId of
                  None \<Rightarrow> None
                | Some session \<Rightarrow> Some (sessionId, session))
          else None)"

text \<open>
  \<open>getOrCreate\<close> returns \<open>{ ...session }\<close>, a copy of the row: the result is a record
  value, the stored row stays in the map.  \<open>now\<close> is the clock reading of the first branch.
\<close>

definition getOrCreate ::
  "int \<Rightarrow> Mint \<Rightarrow> string \<Rightarrow> SessionManager \<Rightarrow> SessionManagerContext \<times> SessionManager" where
  "getOrCreate now m connectionId this =
     (case lookup_session this connectionId of
        Some (sessionId, session) \<Rightarrow>
          let session' = session\<lparr>last_activity := now\<rparr>
          in (session', this\<lparr>sessions := Map_set sessionId session' (sessions this)\<rparr>)
      | None \<Rightarrow>
          let sessionId = mint_session_id m;
              session = \<lparr> session_id = sessionId, user_id = None, lang = Auto,
                          budget_tokens = Finite 0, tenant = None,
                          created_at = t_created m, last_activity = t_activity m \<rparr>
          in (session,
              this\<lparr>sessions := Map_set sessionId session (sessions this),
                   connectionToSession := Map_set connectionId sessionId (connectionToSession this)\<rparr>))"

definition update ::
  "int \<Rightarrow> string \<Rightarrow> SessionUpdates \<Rightarrow> SessionManager
     \<Rightarrow> exception + SessionManagerContext \<times> SessionManager" where
  "update now connectionId updates this =
     (case lookup_session this connectionId of
        None \<Rightarrow> Inl (NoSessionFound connectionId)
      | Some (sessionId, session) \<Rightarrow>
          let session' = (Object_assign session updates)\<lparr>last_activity := now\<rparr>
          in Inr (session', this\<lparr>sessions := Map_set sessionId session' (sessions this)\<rparr>))"

definition get ::
  "int \<Rightarrow> string \<Rightarrow> SessionManager \<Rightarrow> SessionManagerContext option \<times> SessionManager" where
  "get now connectionId this =
     (case lookup_session this connectionId of
        None \<Rightarrow> (None, this)
      | Some (sessionId, session) \<Rightarrow>
          let session' = session\<lparr>last_activity := now\<rparr>
          in (Some session', this\<lparr>sessions := Map_set sessionId session' (sessions this)\<rparr>))"

definition cleanup :: "string \<Rightarrow> SessionManager \<Rightarrow> SessionManager" where
  "cleanup connectionId this =
     (case Map_get (connectionToSession this) connectionId of
        None \<Rightarrow> this
      | Some sessionId \<Rightarrow>
          if sessionId \<noteq> []
          then this\<lparr>sessions := Map_delete sessionId (sessions this),
                    connectionToSession := Map_delete connectionId (connectionToSession this)\<rparr>
          else this)"

text \<open>The test of the first loop of \<open>cleanupStale\<close> on one entry of \<open>connectionToSession\<close>.\<close>

definition is_stale :: "int \<Rightarrow> SessionManager \<Rightarrow> string \<times> string \<Rightarrow> bool" where
  "is_stale now this entry =
     (case Map_get (sessions this) (snd entry) of
        None \<Rightarrow> False
      | Some session \<Rightarrow> now - last_activity session > sessionTimeout)"

definition cleanupStale :: "int \<Rightarrow> SessionManager \<Rightarrow> SessionManager" where
  "cleanupStale now this =
     (let staleConnections = map fst (filter (is_stale now this) (connectionToSession this))
      in fold cleanup staleConnections this)"

section \<open>Serialisation of encrypted data\<close>

text \<open>A \<open>Buffer\<close> is a sequence of bytes.\<close>

type_synonym Buffer = "8 word list"

record EncryptedData =
  encrypted :: Buffer
  iv :: Buffer
  salt :: Buffer
  tag :: Buffer

definition IV_LENGTH :: nat where "IV_LENGTH = 12"
definition SALT_LENGTH :: nat where "SALT_LENGTH = 32"
definition TAG_LENGTH :: nat where "TAG_LENGTH = 16"

datatype crypto_error = BufferTooShort

text \<open>\<open>Buffer.concat([data.salt, data.iv, data.tag, data.encrypted])\<close>.\<close>

definition serializeEncrypted :: "EncryptedData \<Rightarrow> Buffer" where
  "serializeEncrypted d = concat [salt d, iv d, tag d, encrypted d]"

text \<open>
  \<open>buffer.subarray(start, end)\<close> clamps both indices to the buffer; for
  \<open>0 \<le> start \<le> end\<close> it is the bytes from \<open>start\<close> up to, not including, \<open>end\<close>.
  \<open>buffer.subarray(start)\<close> runs to the end of the buffer.
\<close>

definition subarray :: "Buffer \<Rightarrow> nat \<Rightarrow> nat \<Rightarrow> Buffer" where
  "subarray b start end' = take (end' - start) (drop start b)"

definition subarray_from :: "Buffer \<Rightarrow> nat \<Rightarrow> Buffer" where
  "subarray_from b start = drop start b"

text \<open>The thrown \<open>Error('Invalid encrypted data: buffer too short')\<close> is \<open>Inl BufferTooShort\<close>.\<close>

definition deserializeEncrypted :: "Buffer \<Rightarrow> crypto_error + EncryptedData" where
  "deserializeEncrypted buffer =
     (if length buffer < SALT_LENGTH + IV_LENGTH + TAG_LENGTH then Inl BufferTooShort
      else
        let offset0 = 0;
            salt' = subarray buffer offset0 (offset0 + SALT_LENGTH);
            offset1 = offset0 + SALT_LENGTH;
            iv' = subarray buffer offset1 (offset1 + IV_LENGTH);
            offset2 = offset1 + IV_LENGTH;
            tag' = subarray buffer offset2 (offset2 + TAG_LENGTH);
            offset3 = offset2 + TAG_LENGTH;
            encrypted' = subarray_from buffer offset3
        in Inr \<lparr> encrypted = encrypted', iv = iv', salt = salt', tag = tag' \<rparr>)"

section \<open>The bridge front-end (eyes.ts)\<close>

text \<open>
  An object that the code builds with \<open>{}\<close> and property assignments: its own
  properties and its prototype.  The prototype is \<open>Object.prototype\<close> (\<open>None\<close>) until an
  assignment to \<open>__proto__\<close> replaces it by a parsed JSON object or array, or by
  \<open>null\<close>.  A parsed JSON object itself has its keys, also a key \<open>__proto__\<close>, as own
  properties.
\<close>

record JsObject =
  own :: "(string \<times> json) list"
  proto :: "json option"

definition empty_object :: JsObject where
  "empty_object = \<lparr> own = [], proto = None \<rparr>"

text \<open>
  Does an assignment to \<open>obj.__proto__\<close> find the accessor of \<open>Object.prototype\<close>?  It
  does unless a data property of that name comes first (an own one, or one of the prototype)
  or the prototype chain ends before \<open>Object.prototype\<close>.
\<close>

definition proto_accessor_found :: "JsObject \<Rightarrow> bool" where
  "proto_accessor_found obj \<longleftrightarrow>
     Map_get (own obj) ''__proto__'' = None \<and>
     (case proto obj of
        None \<Rightarrow> True
      | Some (JObj kvs) \<Rightarrow> Map_get kvs ''__proto__'' = None
      | Some (JArr xs) \<Rightarrow> True
      | Some _ \<Rightarrow> False)"

text \<open>
  The assignment \<open>obj[key] = v\<close>.  Through the accessor it sets the prototype when \<open>v\<close> is
  an object or \<open>null\<close> and does nothing for any other \<open>v\<close>; in every other case it sets
  an own property.
\<close>

definition assign :: "string \<Rightarrow> json \<Rightarrow> JsObject \<Rightarrow> JsObject" where
  "assign key v obj =
     (if key = ''__proto__'' \<and> proto_accessor_found obj
      then (if typeof (Some v) = T_object then obj\<lparr>proto := Some v\<rparr> else obj)
      else obj\<lparr>own := Map_set key v (own obj)\<rparr>)"

text \<open>
  The read \<open>obj.k\<close> for a name that \<open>Object.prototype\<close> and \<open>Array.prototype\<close> do not
  define (it is used for \<open>context\<close>, \<open>payload\<close> and \<open>reasoning_md\<close>): the own
  property, else the property of the prototype.
\<close>

definition read_prop :: "JsObject \<Rightarrow> string \<Rightarrow> json option" where
  "read_prop obj k =
     (case Map_get (own obj) k of
        Some v \<Rightarrow> Some v
      | None \<Rightarrow> (case proto obj of None \<Rightarrow> None | Some p \<Rightarrow> get_prop p k))"

text \<open>
  Is \<open>obj.hasOwnProperty\<close> the function of \<open>Object.prototype\<close>?  A property of that name
  that comes from parsed JSON is not callable, and with the prototype \<open>null\<close> there is
  none; calling it then throws a \<open>TypeError\<close>.
\<close>

definition hasOwnProperty_callable :: "JsObject \<Rightarrow> bool" where
  "hasOwnProperty_callable obj \<longleftrightarrow>
     Map_get (own obj) ''hasOwnProperty'' = None \<and>
     (case proto obj of
        None \<Rightarrow> True
      | Some (JObj kvs) \<Rightarrow> Map_get kvs ''hasOwnProperty'' = None
      | Some (JArr xs) \<Rightarrow> True
      | Some _ \<Rightarrow> False)"

definition RESERVED_WRAPPER_KEYS :: "string list" where
  "RESERVED_WRAPPER_KEYS = [''signal'', ''_meta'', ''requestId'', ''progressToken'', ''arguments'']"

text \<open>
  The first half of \<open>extractEnvelope\<close>: the mapping whose entries are filtered is
  \<open>raw.arguments\<close> when that is a non-null object, and \<open>raw\<close> itself otherwise.  The
  argument \<open>raw\<close> is the parsed JSON object of the call, given by its entries.
\<close>

definition unwrap_arguments :: "(string \<times> json) list \<Rightarrow> (string \<times> json) list" where
  "unwrap_arguments raw =
     (case Map_get raw ''arguments'' of
        None \<Rightarrow> raw
      | Some arguments \<Rightarrow>
          if typeof (Some arguments) = T_object \<and> arguments \<noteq> JNull
          then Object_entries arguments else raw)"

text \<open>
  The loop over \<open>Object.entries(envelope)\<close>, with \<open>cleaned\<close> as accumulator and
  \<open>cleaned[key] = value\<close> as the assignment above.
\<close>

fun clean_entries :: "(string \<times> json) list \<Rightarrow> JsObject \<Rightarrow> JsObject" where
  "clean_entries [] cleaned = cleaned"
| "clean_entries ((key, v) # rest) cleaned =
     (if key \<in> set RESERVED_WRAPPER_KEYS then clean_entries rest cleaned
      else clean_entries rest (assign key v cleaned))"

definition extractEnvelope :: "(string \<times> json) list \<Rightarrow> JsObject" where
  "extractEnvelope raw = clean_entries (unwrap_arguments raw) empty_object"

text \<open>
  The module state of eyes.ts: \<open>currentConnectionId\<close> and the \<open>sessionManager\<close>
  singleton.  \<open>Clock\<close> holds what the runtime returns during one call: the two pieces of a
  generated connection id, the clock reading of \<open>getOrCreate\<close>, the readings of a minting,
  and the clock reading of \<open>update\<close>.
\<close>

record Bridge =
  currentConnectionId :: "string option"
  sessionManager :: SessionManager

record Clock =
  conn_stamp36 :: string
  conn_rand36 :: string
  now_touch :: int
  mint :: Mint
  now_update :: int

definition generateConnectionId :: "Clock \<Rightarrow> string" where
  "generateConnectionId rt = ''conn-'' @ conn_stamp36 rt @ ''-'' @ conn_rand36 rt"

definition getConnectionId :: "Clock \<Rightarrow> Bridge \<Rightarrow> string \<times> Bridge" where
  "getConnectionId rt bridge =
     (case currentConnectionId bridge of
        None \<Rightarrow> (generateConnectionId rt, bridge\<lparr>currentConnectionId := Some (generateConnectionId rt)\<rparr>)
      | Some cid \<Rightarrow>
          if cid = [] then (generateConnectionId rt, bridge\<lparr>currentConnectionId := Some (generateConnectionId rt)\<rparr>)
          else (cid, bridge))"

definition ensureContext :: "Clock \<Rightarrow> Bridge \<Rightarrow> SessionContext \<times> Bridge" where
  "ensureContext rt bridge =
     (let (connectionId, bridge1) = getConnectionId rt bridge;
          (session, manager) = getOrCreate (now_touch rt) (mint rt) connectionId (sessionManager bridge1)
      in (\<lparr> session_id = session_id session, user_id = user_id session, lang = lang session,
            budget_tokens = budget_tokens session, tenant = tenant session \<rparr>,
          bridge1\<lparr>sessionManager := manager\<rparr>))"

definition no_updates :: SessionUpdates where
  "no_updates = \<lparr> upd_session_id = None, upd_user_id = None, upd_lang = None,
      upd_budget_tokens = None, upd_tenant = None, upd_created_at = None, upd_last_activity = None \<rparr>"

text \<open>
  The five conditionals of \<open>coalesceContext\<close>, in the order of the source, each acting on
  the triple \<open>(base, updates, hasUpdates)\<close>.  The fourth one gets the result
  \<open>numericBudget\<close> of \<open>Number(raw.budget_tokens)\<close>.
\<close>

type_synonym merge_state = "SessionContext \<times> SessionUpdates \<times> bool"

definition merge_session_id :: "json \<Rightarrow> merge_state \<Rightarrow> merge_state" where
  "merge_session_id raw st =
     (case st of (base, updates, hasUpdates) \<Rightarrow>
        (case get_prop raw ''session_id'' of
           Some (JStr s) \<Rightarrow>
             if trim s \<noteq> []
             then (base\<lparr>session_id := trim s\<rparr>, updates\<lparr>upd_session_id := Some (trim s)\<rparr>, True)
             else st
         | _ \<Rightarrow> st))"

definition merge_user_id :: "json \<Rightarrow> merge_state \<Rightarrow> merge_state" where
  "merge_user_id raw st =
     (case st of (base, updates, hasUpdates) \<Rightarrow>
        (case get_prop raw ''user_id'' of
           Some (JStr s) \<Rightarrow>
             if trim s \<noteq> []
             then (base\<lparr>user_id := Some (trim s)\<rparr>, updates\<lparr>upd_user_id := Some (Some (trim s))\<rparr>, True)
             else st
         | Some JNull \<Rightarrow> (base\<lparr>user_id := None\<rparr>, updates\<lparr>upd_user_id := Some None\<rparr>, True)
         | _ \<Rightarrow> st))"

definition lang_of_json :: "json option \<Rightarrow> lang option" where
  "lang_of_json v =
     (if v = Some (JStr ''en'') then Some En
      else if v = Some (JStr ''ar'') then Some Ar
      else if v = Some (JStr ''auto'') then Some Auto
      else None)"

definition merge_lang :: "json \<Rightarrow> merge_state \<Rightarrow> merge_state" where
  "merge_lang raw st =
     (case st of (base, updates, hasUpdates) \<Rightarrow>
        (case lang_of_json (get_prop raw ''lang'') of
           Some l \<Rightarrow> (base\<lparr>lang := l\<rparr>, updates\<lparr>upd_lang := Some l\<rparr>, True)
         | None \<Rightarrow> st))"

definition merge_budget_tokens :: "jsnum \<Rightarrow> merge_state \<Rightarrow> merge_state" where
  "merge_budget_tokens numericBudget st =
     (case st of (base, updates, hasUpdates) \<Rightarrow>
        if Number_isFinite numericBudget \<and> jsnum_le (Finite 0) numericBudget
        then (base\<lparr>budget_tokens := numericBudget\<rparr>,
              updates\<lparr>upd_budget_tokens := Some numericBudget\<rparr>, True)
        else st)"

definition merge_tenant :: "json \<Rightarrow> merge_state \<Rightarrow> merge_state" where
  "merge_tenant raw st =
     (case st of (base, updates, hasUpdates) \<Rightarrow>
        (case get_prop raw ''tenant'' of
           Some (JStr s) \<Rightarrow>
             if trim s \<noteq> []
             then (base\<lparr>tenant := Some (trim s)\<rparr>, updates\<lparr>upd_tenant := Some (Some (trim s))\<rparr>, True)
             else st
         | Some JNull \<Rightarrow> (base\<lparr>tenant := None\<rparr>, updates\<lparr>upd_tenant := Some None\<rparr>, True)
         | _ \<Rightarrow> st))"

text \<open>
  \<open>coalesceContext\<close> returns the merged context or the exception thrown, and in both
  cases the module state it leaves behind.  \<open>Number(raw.budget_tokens)\<close> may throw, after
  \<open>ensureContext\<close> has run and before the session manager is updated; the error of
  \<open>sessionManager.update\<close> propagates as well.
\<close>

definition coalesceContext ::
  "Builtins \<Rightarrow> Clock \<Rightarrow> json option \<Rightarrow> Bridge \<Rightarrow> (exception + SessionContext) \<times> Bridge" where
  "coalesceContext B rt input bridge =
     (let (base, bridge1) = ensureContext rt bridge
      in case input of
           None \<Rightarrow> (Inr base, bridge1)
         | Some raw \<Rightarrow>
             if \<not> truthy input \<or> typeof input \<noteq> T_object then (Inr base, bridge1)
             else
               let st3 = merge_lang raw (merge_user_id raw (merge_session_id raw (base, no_updates, False)))
               in case Number_js B (get_prop raw ''budget_tokens'') of
                    Inl e \<Rightarrow> (Inl e, bridge1)
                  | Inr numericBudget \<Rightarrow>
                      let (base', updates, hasUpdates) =
                            merge_tenant raw (merge_budget_tokens numericBudget st3)
                      in if hasUpdates
                         then
                           let (connectionId, bridge2) = getConnectionId rt bridge1
                           in (case update (now_update rt) connectionId updates (sessionManager bridge2) of
                                 Inl e \<Rightarrow> (Inl e, bridge2)
                               | Inr (session, manager) \<Rightarrow>
                                   (Inr base', bridge2\<lparr>sessionManager := manager\<rparr>))
                         else (Inr base', bridge1))"

text \<open>The merged context as the JSON object that is stored into \<open>envelope.context\<close>.\<close>

definition lang_string :: "lang \<Rightarrow> string" where
  "lang_string l = (case l of Auto \<Rightarrow> ''auto'' | En \<Rightarrow> ''en'' | Ar \<Rightarrow> ''ar'')"

definition string_or_null :: "string option \<Rightarrow> json" where
  "string_or_null v = (case v of None \<Rightarrow> JNull | Some s \<Rightarrow> JStr s)"

definition context_json :: "SessionContext \<Rightarrow> json" where
  "context_json c =
     JObj [(''session_id'', JStr (session_id c)), (''user_id'', string_or_null (user_id c)),
           (''lang'', JStr (lang_string (lang c))), (''budget_tokens'', JNum (budget_tokens c)),
           (''tenant'', string_or_null (tenant c))]"

text \<open>\<open>v || null\<close>.\<close>

definition or_null :: "json option \<Rightarrow> json option" where
  "or_null v = (if truthy v then v else Some JNull)"

text \<open>An object literal as it is serialised: a property whose value is \<open>undefined\<close> is left out.\<close>

fun object_literal :: "(string \<times> json option) list \<Rightarrow> (string \<times> json) list" where
  "object_literal [] = []"
| "object_literal ((k, None) # rest) = object_literal rest"
| "object_literal ((k, Some v) # rest) = (k, v) # object_literal rest"

text \<open>
  \<open>callEye\<close> up to the request.  The result is the body that \<open>fetch\<close> posts,
  \<open>JSON.stringify(finalPayload)\<close>, or the exception thrown before the request, and the
  module state after the call.  The two logging statements that call \<open>hasOwnProperty\<close>
  on \<open>body\<close> and on \<open>envelope\<close> throw when that is not the function of
  \<open>Object.prototype\<close>; \<open>body\<close> is a parsed JSON object, given by its entries.
\<close>

definition callEye_body ::
  "Builtins \<Rightarrow> Clock \<Rightarrow> (string \<times> json) list \<Rightarrow> Bridge \<Rightarrow> (exception + json) \<times> Bridge" where
  "callEye_body B rt body bridge =
     (if Map_get body ''hasOwnProperty'' \<noteq> None then (Inl TypeError, bridge)
      else
        let envelope = extractEnvelope body
        in if \<not> hasOwnProperty_callable envelope then (Inl TypeError, bridge)
           else
             case coalesceContext B rt (read_prop envelope ''context'') bridge of
               (Inl e, bridge') \<Rightarrow> (Inl e, bridge')
             | (Inr mergedContext, bridge') \<Rightarrow>
                 let envelope1 = assign ''context'' (context_json mergedContext) envelope;
                     envelope2 =
                       (if \<not> truthy (read_prop envelope1 ''payload'')
                           \<or> typeof (read_prop envelope1 ''payload'') \<noteq> T_object
                        then assign ''payload'' (JObj []) envelope1 else envelope1);
                     finalPayload = JObj (object_literal
                       [(''context'', read_prop envelope2 ''context''),
                        (''payload'', read_prop envelope2 ''payload''),
                        (''reasoning_md'', or_null (read_prop envelope2 ''reasoning_md''))])
                 in (Inr (JSON_wire finalPayload), bridge'))"

section \<open>The input schema of the tool third-eye/oversee\<close>

text \<open>
  The schema is data of the source; it is validated by JSON Schema's rules, modelled here
  for the keywords the schema uses.  The annotations \<open>description\<close> and \<open>examples\<close>
  constrain nothing and are left out.
\<close>

datatype json_type = Ty_object | Ty_string | Ty_number | Ty_array | Ty_null | Ty_boolean

fun has_type :: "json \<Rightarrow> json_type \<Rightarrow> bool" where
  "has_type (JObj kvs) t = (t = Ty_object)"
| "has_type (JStr s) t = (t = Ty_string)"
| "has_type (JNum n) t = (t = Ty_number)"
| "has_type (JArr xs) t = (t = Ty_array)"
| "has_type JNull t = (t = Ty_null)"
| "has_type (JBool b) t = (t = Ty_boolean)"

text \<open>
  The one regular expression of the schema, \<open>^.{n,}$\<close>: the whole string consists of at
  least \<open>n\<close> characters none of which is a line terminator.
\<close>

datatype regex = Dot_at_least nat

definition is_line_terminator :: "char \<Rightarrow> bool" where
  "is_line_terminator c \<longleftrightarrow> c = CHR 0x0A \<or> c = CHR 0x0D"

fun regex_test :: "regex \<Rightarrow> string \<Rightarrow> bool" where
  "regex_test (Dot_at_least n) s = (n \<le> length s \<and> list_all (\<lambda>c. \<not> is_line_terminator c) s)"

datatype schema = Schema "keyword list"
and keyword =
    Type "json_type list"
  | Properties "(string \<times> schema) list"
  | Required "string list"
  | AdditionalProperties bool
  | MinLength nat
  | Pattern regex
  | Enum "json list"
  | AnyOf "schema list"
  | MinProperties nat
  | Items schema
  | Minimum real

fun declared_properties :: "keyword list \<Rightarrow> string list" where
  "declared_properties [] = []"
| "declared_properties (Properties ps # kws) = map fst ps @ declared_properties kws"
| "declared_properties (_ # kws) = declared_properties kws"

fun valid :: "schema \<Rightarrow> json \<Rightarrow> bool"
and valid_keyword :: "string list \<Rightarrow> keyword \<Rightarrow> json \<Rightarrow> bool" where
  "valid (Schema kws) v = (\<forall>kw \<in> set kws. valid_keyword (declared_properties kws) kw v)"
| "valid_keyword declared (Type ts) v = (\<exists>t \<in> set ts. has_type v t)"
| "valid_keyword declared (Properties ps) v =
     (case v of
        JObj kvs \<Rightarrow> (\<forall>p \<in> set ps. case map_of kvs (fst p) of None \<Rightarrow> True | Some x \<Rightarrow> valid (snd p) x)
      | _ \<Rightarrow> True)"
| "valid_keyword declared (Required ks) v =
     (case v of JObj kvs \<Rightarrow> (\<forall>k \<in> set ks. map_of kvs k \<noteq> None) | _ \<Rightarrow> True)"
| "valid_keyword declared (AdditionalProperties allowed) v =
     (case v of JObj kvs \<Rightarrow> allowed \<or> (\<forall>k \<in> set (map fst kvs). k \<in> set declared) | _ \<Rightarrow> True)"
| "valid_keyword declared (MinLength n) v = (case v of JStr s \<Rightarrow> n \<le> length s | _ \<Rightarrow> True)"
| "valid_keyword declared (Pattern r) v = (case v of JStr s \<Rightarrow> regex_test r s | _ \<Rightarrow> True)"
| "valid_keyword declared (Enum vs) v = (v \<in> set vs)"
| "valid_keyword declared (AnyOf ss) v = (\<exists>s \<in> set ss. valid s v)"
| "valid_keyword declared (MinProperties n) v = (case v of JObj kvs \<Rightarrow> n \<le> length kvs | _ \<Rightarrow> True)"
| "valid_keyword declared (Items s) v = (case v of JArr xs \<Rightarrow> (\<forall>x \<in> set xs. valid s x) | _ \<Rightarrow> True)"
| "valid_keyword declared (Minimum m) v =
     (case v of JNum n \<Rightarrow> jsnum_le (Finite m) n | _ \<Rightarrow> True)"

definition contextSchema :: schema where
  "contextSchema = Schema
     [Type [Ty_object],
      Properties
        [(''session_id'', Schema [Type [Ty_string]]),
         (''user_id'', Schema [Type [Ty_string, Ty_null]]),
         (''tenant'', Schema [Type [Ty_string, Ty_null]]),
         (''lang'', Schema [Enum [JStr ''auto'', JStr ''en'', JStr ''ar'']]),
         (''budget_tokens'', Schema [Type [Ty_number], Minimum 0])],
      Required [''session_id'', ''lang'', ''budget_tokens''],
      AdditionalProperties False]"

text \<open>The sub-schemas of \<open>inputSchema\<close>, named after the property they describe.\<close>

definition intentSchema :: schema where
  "intentSchema = Schema [Type [Ty_string], MinLength 5, Pattern (Dot_at_least 5)]"

definition workSchema :: schema where
  "workSchema = Schema
     [Type [Ty_object],
      Properties
        [(''code'', Schema [Type [Ty_string]]),
         (''plan'', Schema [Type [Ty_string]]),
         (''draft'', Schema [Type [Ty_string]]),
         (''requirements'', Schema [Type [Ty_string]]),
         (''tests'', Schema [Type [Ty_string]]),
         (''docs'', Schema [Type [Ty_string]])],
      MinProperties 1,
      AdditionalProperties True]"

definition contextInfoSchema :: schema where
  "contextInfoSchema = Schema
     [Type [Ty_object],
      Properties
        [(''project_type'', Schema [Type [Ty_string]]),
         (''language'', Schema [Type [Ty_string]]),
         (''target_audience'', Schema [Type [Ty_string]]),
         (''compliance_requirements'', Schema [Type [Ty_array], Items (Schema [Type [Ty_string]])]),
         (''performance_criteria'', Schema [Type [Ty_string]]),
         (''security_level'',
            Schema [Type [Ty_string], Enum [JStr ''low'', JStr ''medium'', JStr ''high'', JStr ''critical'']])],
      MinProperties 1,
      AdditionalProperties True]"

definition reasoningSchema :: schema where
  "reasoningSchema = Schema [Type [Ty_string], MinLength 10]"

definition payloadSchema :: schema where
  "payloadSchema = Schema
     [Type [Ty_object],
      Properties
        [(''intent'', intentSchema), (''work'', workSchema), (''context_info'', contextInfoSchema)],
      Required [''intent'', ''work'', ''context_info''],
      AdditionalProperties False]"

definition inputSchema :: schema where
  "inputSchema = Schema
     [Type [Ty_object],
      Properties
        [(''context'', Schema [AnyOf [contextSchema, Schema [Type [Ty_null]]]]),
         (''payload'', payloadSchema),
         (''reasoning_md'', reasoningSchema)],
      Required [''payload'', ''reasoning_md''],
      AdditionalProperties False]"

section \<open>CSRF tokens\<close>

text \<open>
  Modelled from the spec: the generation of a CSRF token; the module csrf.py is not among
  the sources (the implementation report only sketches it).  Section 4.7: the token has the
  form \<open>token:timestamp:signature\<close> where the signature is HMAC-SHA256 of
  \<open>token || ":" || timestamp\<close> under the server secret.  HMAC-SHA256 (as a hex digest) is
  a parameter, and so are the time of issue in seconds and the random token.
\<close>

definition generate_csrf_token ::
  "(string \<Rightarrow> string \<Rightarrow> string) \<Rightarrow> string \<Rightarrow> nat \<Rightarrow> string \<Rightarrow> string" where
  "generate_csrf_token hmac_sha256 SECRET unix_time token =
     (let timestamp = show_nat unix_time;
          signature = hmac_sha256 SECRET (token @ '':'' @ timestamp)
      in token @ '':'' @ timestamp @ '':'' @ signature)"

text \<open>Splitting at every colon, and reading a decimal numeral.\<close>

fun split_colon :: "string \<Rightarrow> string list" where
  "split_colon [] = [[]]"
| "split_colon (c # cs) =
     (if c = CHR '':'' then [] # split_colon cs
      else (case split_colon cs of [] \<Rightarrow> [[c]] | part # parts \<Rightarrow> (c # part) # parts))"

definition is_digit :: "char \<Rightarrow> bool" where
  "is_digit c \<longleftrightarrow> 48 \<le> (of_char c :: nat) \<and> (of_char c :: nat) \<le> 57"

definition decimal_value :: "string \<Rightarrow> nat" where
  "decimal_value s = foldl (\<lambda>acc c. 10 * acc + (of_char c - 48)) 0 s"

definition parse_nat :: "string \<Rightarrow> nat option" where
  "parse_nat s = (if s \<noteq> [] \<and> list_all is_digit s then Some (decimal_value s) else None)"

definition CSRF_VALIDITY :: int where
  "CSRF_VALIDITY = 3600"

datatype csrf_error = E_CSRF_FAILED

text \<open>
  Modelled from the spec: the validation of a CSRF token is not among the sources.  Section
  4.7: the token has the form \<open>token:timestamp:signature\<close>, the signature must verify and
  the timestamp must be within 3600 s of now.
\<close>

definition validate_csrf_token ::
  "(string \<Rightarrow> string \<Rightarrow> string) \<Rightarrow> string \<Rightarrow> nat \<Rightarrow> string \<Rightarrow> bool" where
  "validate_csrf_token hmac_sha256 SECRET now csrf =
     (case split_colon csrf of
        [token, timestamp, signature] \<Rightarrow>
          (case parse_nat timestamp of
             None \<Rightarrow> False
           | Some issued \<Rightarrow>
               signature = hmac_sha256 SECRET (token @ '':'' @ timestamp)
               \<and> \<bar>int now - int issued\<bar> \<le> CSRF_VALIDITY)
      | _ \<Rightarrow> False)"

text \<open>
  Modelled from the spec: \<open>csrf_protect\<close> itself is not among the sources.  Section 8: a
  request whose \<open>X-CSRF-Token\<close> header does not equal the CSRF cookie, or whose signature
  does not verify, or whose timestamp is outside the validity window, is rejected with
  \<open>E_CSRF_FAILED\<close>.  The header and the cookie of a request are present or not.
\<close>

definition csrf_protect ::
  "(string \<Rightarrow> string \<Rightarrow> string) \<Rightarrow> string \<Rightarrow> nat \<Rightarrow> string option \<Rightarrow> string option
     \<Rightarrow> csrf_error + unit" where
  "csrf_protect hmac_sha256 SECRET now header cookie =
     (if header \<noteq> cookie then Inl E_CSRF_FAILED
      else case header of
             None \<Rightarrow> Inl E_CSRF_FAILED
           | Some csrf \<Rightarrow>
               if \<not> validate_csrf_token hmac_sha256 SECRET now csrf then Inl E_CSRF_FAILED
               else Inr ())"

section \<open>Notions used in the statements\<close>

text \<open>\<open>N\<close> successive calls of \<open>getOrCreate\<close> for one connection, each with its own readings.\<close>

fun getOrCreate_times ::
  "(int \<times> Mint) list \<Rightarrow> string \<Rightarrow> SessionManager \<Rightarrow> SessionManagerContext list \<times> SessionManager" where
  "getOrCreate_times [] connectionId this = ([], this)"
| "getOrCreate_times ((now, m) # rest) connectionId this =
     (let (session, this') = getOrCreate now m connectionId this;
          (more, this'') = getOrCreate_times rest connectionId this'
      in (session # more, this''))"

text \<open>
  The stores that the five operations reach from the empty store, whatever the clock and
  the random generator return: a minted id may be the key of a stored row.
\<close>

inductive reachable :: "SessionManager \<Rightarrow> bool" where
  start: "reachable new_SessionManager"
| step_getOrCreate:
    "reachable this \<Longrightarrow> reachable (snd (getOrCreate now m connectionId this))"
| step_get: "reachable this \<Longrightarrow> reachable (snd (get now connectionId this))"
| step_update:
    "reachable this \<Longrightarrow> update now connectionId updates this = Inr (session, this') \<Longrightarrow>
     reachable this'"
| step_cleanup: "reachable this \<Longrightarrow> reachable (cleanup connectionId this)"
| step_cleanupStale: "reachable this \<Longrightarrow> reachable (cleanupStale now this)"

text \<open>
  The stores reached when, in addition, every id that \<open>getOrCreate\<close> mints is fresh:
  it is not the key of a stored row.
\<close>

inductive reachable_fresh :: "SessionManager \<Rightarrow> bool" where
  fresh_start: "reachable_fresh new_SessionManager"
| fresh_getOrCreate:
    "reachable_fresh this \<Longrightarrow>
     lookup_session this connectionId \<noteq> None \<or> \<not> Map_has (sessions this) (mint_session_id m) \<Longrightarrow>
     reachable_fresh (snd (getOrCreate now m connectionId this))"
| fresh_get: "reachable_fresh this \<Longrightarrow> reachable_fresh (snd (get now connectionId this))"
| fresh_update:
    "reachable_fresh this \<Longrightarrow> update now connectionId updates this = Inr (session, this') \<Longrightarrow>
     reachable_fresh this'"
| fresh_cleanup: "reachable_fresh this \<Longrightarrow> reachable_fresh (cleanup connectionId this)"
| fresh_cleanupStale: "reachable_fresh this \<Longrightarrow> reachable_fresh (cleanupStale now this)"

definition one_session_per_connection :: "SessionManager \<Rightarrow> bool" where
  "one_session_per_connection this = distinct (map fst (connectionToSession this))"

definition referenced_exactly_once :: "SessionManager \<Rightarrow> bool" where
  "referenced_exactly_once this =
     list_all (\<lambda>row. length (filter (\<lambda>binding. snd binding = fst row) (connectionToSession this)) = 1)
       (sessions this)"

text \<open>
  The invariant in terms of the two maps: every binding points to a stored row under a
  non-empty id, every row has a binding, and no two connections are bound to one id.
\<close>

definition bound_one_to_one :: "(string \<rightharpoonup> string) \<Rightarrow> (string \<rightharpoonup> 'a) \<Rightarrow> bool" where
  "bound_one_to_one conn sess \<longleftrightarrow>
     (\<forall>c sid. conn c = Some sid \<longrightarrow> sid \<noteq> [] \<and> sess sid \<noteq> None) \<and>
     (\<forall>sid. sess sid \<noteq> None \<longrightarrow> (\<exists>c. conn c = Some sid)) \<and>
     (\<forall>c c' sid. conn c = Some sid \<longrightarrow> conn c' = Some sid \<longrightarrow> c = c')"

definition store_inv :: "SessionManager \<Rightarrow> bool" where
  "store_inv this \<longleftrightarrow>
     distinct (map fst (connectionToSession this)) \<and>
     distinct (map fst (sessions this)) \<and>
     bound_one_to_one (map_of (connectionToSession this)) (map_of (sessions this))"

text \<open>
  What holds of every reachable store, fresh ids or not: the bindings point to non-empty
  ids, and every row has at least one binding.
\<close>

definition bound_rows :: "(string \<rightharpoonup> string) \<Rightarrow> (string \<rightharpoonup> 'a) \<Rightarrow> bool" where
  "bound_rows conn sess \<longleftrightarrow>
     (\<forall>c sid. conn c = Some sid \<longrightarrow> sid \<noteq> []) \<and>
     (\<forall>sid. sess sid \<noteq> None \<longrightarrow> (\<exists>c. conn c = Some sid))"

definition store_wf :: "SessionManager \<Rightarrow> bool" where
  "store_wf this \<longleftrightarrow>
     distinct (map fst (connectionToSession this)) \<and>
     bound_rows (map_of (connectionToSession this)) (map_of (sessions this))"

text \<open>The connection of a call, and the session that \<open>getOrCreate\<close> returns for it.\<close>

definition connection_of :: "Clock \<Rightarrow> Bridge \<Rightarrow> string" where
  "connection_of rt bridge = fst (getConnectionId rt bridge)"


text \<open>
  The context that results from the bound session's values \<open>base\<close>, a context object
  \<open>raw\<close> and the number \<open>n\<close> that \<open>Number\<close> makes of its \<open>budget_tokens\<close>, field
  by field: a string that is non-empty after trimming overrides; for \<open>user_id\<close> and
  \<open>tenant\<close> an explicit \<open>null\<close> overrides as well; \<open>lang\<close> overrides when it is one
  of the three codes; the budget is \<open>n\<close> when \<open>n\<close> is finite and not negative.
\<close>

definition merged_context :: "SessionContext \<Rightarrow> json \<Rightarrow> jsnum \<Rightarrow> SessionContext" where
  "merged_context base raw n =
     \<lparr> session_id =
         (case get_prop raw ''session_id'' of
            Some (JStr s) \<Rightarrow> if trim s \<noteq> [] then trim s else session_id base
          | _ \<Rightarrow> session_id base),
       user_id =
         (case get_prop raw ''user_id'' of
            Some (JStr s) \<Rightarrow> if trim s \<noteq> [] then Some (trim s) else user_id base
          | Some JNull \<Rightarrow> None
          | _ \<Rightarrow> user_id base),
       lang =
         (case lang_of_json (get_prop raw ''lang'') of Some l \<Rightarrow> l | None \<Rightarrow> lang base),
       budget_tokens =
         (case n of
            Finite r \<Rightarrow> if r \<ge> 0 then Finite r else budget_tokens base
          | _ \<Rightarrow> budget_tokens base),
       tenant =
         (case get_prop raw ''tenant'' of
            Some (JStr s) \<Rightarrow> if trim s \<noteq> [] then Some (trim s) else tenant base
          | Some JNull \<Rightarrow> None
          | _ \<Rightarrow> tenant base) \<rparr>"

text \<open>
  The calls on which \<open>callEye\<close> throws before the request, for an unwrapped mapping
  without a key \<open>__proto__\<close>: a key \<open>hasOwnProperty\<close> in the call or in the unwrapped
  mapping, or a context object whose \<open>budget_tokens\<close> makes \<open>Number\<close> throw.
\<close>

definition budget_conversion_throws :: "Builtins \<Rightarrow> json option \<Rightarrow> bool" where
  "budget_conversion_throws B input =
     (case input of
        None \<Rightarrow> False
      | Some raw \<Rightarrow>
          truthy input \<and> typeof input = T_object
          \<and> Number_js B (get_prop raw ''budget_tokens'') = Inl TypeError)"

definition call_throws :: "Builtins \<Rightarrow> (string \<times> json) list \<Rightarrow> bool" where
  "call_throws B body \<longleftrightarrow>
     Map_get body ''hasOwnProperty'' \<noteq> None
     \<or> Map_get (unwrap_arguments body) ''hasOwnProperty'' \<noteq> None
     \<or> budget_conversion_throws B (Map_get (unwrap_arguments body) ''context'')"






text \<open>A string without a colon.\<close>

definition colon_free :: "string \<Rightarrow> bool" where
  "colon_free s \<longleftrightarrow> CHR '':'' \<notin> set s"

text \<open>Concrete readings and states for the examples.\<close>

definition mint1 :: Mint where
  "mint1 = \<lparr> stamp36 = ''a'', rand36 = ''b'', t_created = 0, t_activity = 0 \<rparr>"

definition mint2 :: Mint where
  "mint2 = \<lparr> stamp36 = ''rs'', rand36 = ''k3x9q2a'', t_created = 1000, t_activity = 1000 \<rparr>"

definition B0 :: Builtins where
  "B0 = \<lparr> StringToNumber = (\<lambda>s. NaN), NumberToString = (\<lambda>n. []) \<rparr>"

definition rt0 :: Clock where
  "rt0 = \<lparr> conn_stamp36 = ''c1'', conn_rand36 = ''r1'', now_touch = 10, mint = mint2, now_update = 11 \<rparr>"

definition bridge0 :: Bridge where
  "bridge0 = \<lparr> currentConnectionId = None, sessionManager = new_SessionManager \<rparr>"

definition toy_mac :: "string \<Rightarrow> string \<Rightarrow> string" where
  "toy_mac key msg = filter (\<lambda>c. c \<noteq> CHR '':'') (rev msg @ key)"


section \<open>Theorems\<close>

subsection \<open>Serialisation of encrypted data\<close>

text \<open>
  C9.  For every \<open>EncryptedData\<close> whose salt has 32 bytes, whose iv has 12 bytes and whose
  tag has 16 bytes, deserialising the serialised value gives the value back; and
  \<open>deserializeEncrypted\<close> fails with the buffer-too-short error exactly when its input is
  shorter than 60 = 32 + 12 + 16 bytes.
\<close>

theorem serialize_roundtrip_and_short_buffer:
  "(length (salt d) = 32 \<and> length (iv d) = 12 \<and> length (tag d) = 16
      \<longrightarrow> deserializeEncrypted (serializeEncrypted d) = Inr d)
   \<and> (deserializeEncrypted buffer = Inl BufferTooShort \<longleftrightarrow> length buffer < 60)"
  by (simp add: deserializeEncrypted_def serializeEncrypted_def subarray_def subarray_from_def
      SALT_LENGTH_def IV_LENGTH_def TAG_LENGTH_def Let_def)

text \<open>An instance with three encrypted bytes, and buffers of 59 and 60 bytes.\<close>

theorem serialize_roundtrip_and_short_buffer_witness:
  "deserializeEncrypted (serializeEncrypted
      \<lparr> encrypted = [1, 2, 3], iv = replicate 12 7, salt = replicate 32 9, tag = replicate 16 5 \<rparr>)
     = Inr \<lparr> encrypted = [1, 2, 3], iv = replicate 12 7, salt = replicate 32 9, tag = replicate 16 5 \<rparr>
   \<and> deserializeEncrypted (replicate 59 0) = Inl BufferTooShort
   \<and> deserializeEncrypted (replicate 60 0) \<noteq> Inl BufferTooShort"
  using serialize_roundtrip_and_short_buffer
    [of "\<lparr> encrypted = [1, 2, 3], iv = replicate 12 7, salt = replicate 32 9, tag = replicate 16 5 \<rparr>"
        "replicate 59 0"]
    serialize_roundtrip_and_short_buffer
    [of "\<lparr> encrypted = [1, 2, 3], iv = replicate 12 7, salt = replicate 32 9, tag = replicate 16 5 \<rparr>"
        "replicate 60 0"]
  by simp

subsection \<open>The session store: invariant and clean-up\<close>

lemma bound_touch:
  "bound_one_to_one conn sess \<Longrightarrow> sess sid \<noteq> None \<Longrightarrow> bound_one_to_one conn (sess(sid \<mapsto> s))"
  unfolding bound_one_to_one_def by (simp; blast)

lemma bound_create:
  assumes "bound_one_to_one conn sess" and "conn c = None" and "sess sid = None" and "sid \<noteq> []"
  shows "bound_one_to_one (conn(c \<mapsto> sid)) (sess(sid \<mapsto> s))"
proof -
  have 1: "x \<noteq> [] \<and> (sess(sid \<mapsto> s)) x \<noteq> None" if "(conn(c \<mapsto> sid)) c' = Some x" for c' x
    using that assms unfolding bound_one_to_one_def by (cases "c' = c") auto
  have 2: "\<exists>c'. (conn(c \<mapsto> sid)) c' = Some x" if "(sess(sid \<mapsto> s)) x \<noteq> None" for x
  proof (cases "x = sid")
    case True
    then show ?thesis by (intro exI [of _ c]) simp
  next
    case False
    with that have "sess x \<noteq> None" by simp
    then obtain c' where c': "conn c' = Some x"
      using assms(1) unfolding bound_one_to_one_def by blast
    with assms(2) have "c' \<noteq> c" by auto
    with c' show ?thesis by (intro exI [of _ c']) simp
  qed
  have 3: "c1 = c2"
    if "(conn(c \<mapsto> sid)) c1 = Some x" and "(conn(c \<mapsto> sid)) c2 = Some x" for c1 c2 x
  proof -
    have fresh: "conn c' \<noteq> Some sid" for c'
      using assms(1,3) unfolding bound_one_to_one_def by fastforce
    show ?thesis
    proof (cases "c1 = c")
      case True
      with that(1) have "x = sid" by simp
      with that(2) fresh [of c2] True show ?thesis by (cases "c2 = c") auto
    next
      case False
      with that(1) have c1: "conn c1 = Some x" by simp
      with fresh [of c1] have "x \<noteq> sid" by auto
      with that(2) have "c2 \<noteq> c" and "conn c2 = Some x" by (auto split: if_splits)
      with c1 show ?thesis
        using assms(1) unfolding bound_one_to_one_def by blast
    qed
  qed
  show ?thesis
    unfolding bound_one_to_one_def using 1 2 3 by blast
qed

lemma bound_cleanup:
  assumes "bound_one_to_one conn sess" and "conn c = Some sid"
  shows "bound_one_to_one (conn(c := None)) (sess(sid := None))"
proof -
  have 1: "x \<noteq> [] \<and> (sess(sid := None)) x \<noteq> None" if "(conn(c := None)) c' = Some x" for c' x
  proof -
    from that have "c' \<noteq> c" and c': "conn c' = Some x" by (auto split: if_splits)
    then have "x \<noteq> sid"
      using assms unfolding bound_one_to_one_def by blast
    with c' show ?thesis
      using assms(1) unfolding bound_one_to_one_def by auto
  qed
  have 2: "\<exists>c'. (conn(c := None)) c' = Some x" if "(sess(sid := None)) x \<noteq> None" for x
  proof -
    from that have "x \<noteq> sid" and "sess x \<noteq> None" by (auto split: if_splits)
    then obtain c' where c': "conn c' = Some x"
      using assms(1) unfolding bound_one_to_one_def by blast
    with \<open>x \<noteq> sid\<close> assms(2) have "c' \<noteq> c" by auto
    with c' show ?thesis by (intro exI [of _ c']) simp
  qed
  have 3: "c1 = c2"
    if "(conn(c := None)) c1 = Some x" and "(conn(c := None)) c2 = Some x" for c1 c2 x
  proof -
    from that have "conn c1 = Some x" and "conn c2 = Some x" by (auto split: if_splits)
    then show ?thesis
      using assms(1) unfolding bound_one_to_one_def by blast
  qed
  show ?thesis
    unfolding bound_one_to_one_def using 1 2 3 by blast
qed

lemma lookup_session_Some:
  "lookup_session this c = Some (sid, s) \<Longrightarrow>
     map_of (connectionToSession this) c = Some sid \<and> sid \<noteq> [] \<and> map_of (sessions this) sid = Some s"
  by (auto simp: lookup_session_def Map_get_def Map_has_def split: option.splits if_splits)

lemma lookup_session_None:
  "store_inv this \<Longrightarrow> lookup_session this c = None \<Longrightarrow> map_of (connectionToSession this) c = None"
proof (rule ccontr)
  assume inv: "store_inv this" and none: "lookup_session this c = None"
    and "map_of (connectionToSession this) c \<noteq> None"
  then obtain sid where sid: "map_of (connectionToSession this) c = Some sid" by auto
  with inv have "sid \<noteq> [] \<and> map_of (sessions this) sid \<noteq> None"
    unfolding store_inv_def bound_one_to_one_def by blast
  with sid none show False
    by (auto simp: lookup_session_def Map_get_def Map_has_def split: option.splits)
qed

lemma mint_session_id_nonempty: "mint_session_id m \<noteq> []"
  by (simp add: mint_session_id_def)

lemma update_keys_present:
  "map_of al k \<noteq> None \<Longrightarrow> map fst (AList.update k v al) = map fst al"
  by (induction al) auto

lemma update_absent:
  "map_of al k = None \<Longrightarrow> AList.update k v al = al @ [(k, v)]"
  by (induction al) (auto split: if_splits)

lemma store_inv_touch:
  assumes "store_inv this" and "map_of (sessions this) sid \<noteq> None"
  shows "store_inv (this\<lparr>sessions := Map_set sid s' (sessions this)\<rparr>)"
  using assms bound_touch [of "map_of (connectionToSession this)" "map_of (sessions this)" sid s']
  by (simp add: store_inv_def Map_set_def update_keys_present update_conv')

lemma store_inv_create:
  assumes "store_inv this" and "map_of (connectionToSession this) c = None"
    and "map_of (sessions this) sid = None" and "sid \<noteq> []"
  shows "store_inv (this\<lparr>sessions := Map_set sid s (sessions this),
                        connectionToSession := Map_set c sid (connectionToSession this)\<rparr>)"
  using assms bound_create [of "map_of (connectionToSession this)" "map_of (sessions this)" c sid s]
  by (simp add: store_inv_def Map_set_def distinct_update update_conv')

lemma store_inv_delete:
  assumes "store_inv this" and "map_of (connectionToSession this) c = Some sid"
  shows "store_inv (this\<lparr>sessions := Map_delete sid (sessions this),
                        connectionToSession := Map_delete c (connectionToSession this)\<rparr>)"
  using assms bound_cleanup [of "map_of (connectionToSession this)" "map_of (sessions this)" c sid]
  by (simp add: store_inv_def Map_delete_def distinct_delete delete_conv')

lemma store_inv_getOrCreate:
  assumes "store_inv this"
    and "lookup_session this c \<noteq> None \<or> \<not> Map_has (sessions this) (mint_session_id m)"
  shows "store_inv (snd (getOrCreate now m c this))"
proof (cases "lookup_session this c")
  case None
  with assms have "map_of (connectionToSession this) c = None"
    and "map_of (sessions this) (mint_session_id m) = None"
    by (auto simp: lookup_session_None Map_has_def)
  then show ?thesis
    using None assms(1) store_inv_create [OF assms(1) _ _ mint_session_id_nonempty]
    by (simp add: getOrCreate_def Let_def)
next
  case (Some p)
  obtain sid s where p: "p = (sid, s)" by (cases p)
  with Some lookup_session_Some have "map_of (sessions this) sid \<noteq> None" by fastforce
  then show ?thesis
    using Some p store_inv_touch [OF assms(1)] by (simp add: getOrCreate_def Let_def)
qed

lemma store_inv_get:
  assumes "store_inv this"
  shows "store_inv (snd (get now c this))"
proof (cases "lookup_session this c")
  case None
  then show ?thesis using assms by (simp add: get_def)
next
  case (Some p)
  obtain sid s where p: "p = (sid, s)" by (cases p)
  with Some lookup_session_Some have "map_of (sessions this) sid \<noteq> None" by fastforce
  then show ?thesis
    using Some p store_inv_touch [OF assms(1)] by (simp add: get_def Let_def)
qed

lemma store_inv_update:
  assumes "store_inv this" and "update now c u this = Inr (s', this')"
  shows "store_inv this'"
proof (cases "lookup_session this c")
  case None
  then show ?thesis using assms by (simp add: update_def)
next
  case (Some p)
  obtain sid s where p: "p = (sid, s)" by (cases p)
  with Some lookup_session_Some have "map_of (sessions this) sid \<noteq> None" by fastforce
  then show ?thesis
    using Some p assms(2) store_inv_touch [OF assms(1)] by (auto simp: update_def Let_def)
qed

lemma store_inv_cleanup:
  assumes "store_inv this"
  shows "store_inv (cleanup c this)"
proof (cases "map_of (connectionToSession this) c")
  case None
  then show ?thesis using assms by (simp add: cleanup_def Map_get_def)
next
  case (Some sid)
  then show ?thesis
    using assms store_inv_delete [OF assms Some] by (simp add: cleanup_def Map_get_def)
qed

lemma store_inv_fold_cleanup:
  "store_inv this \<Longrightarrow> store_inv (fold cleanup cs this)"
  by (induction cs arbitrary: this) (simp_all add: store_inv_cleanup)

lemma store_inv_cleanupStale:
  "store_inv this \<Longrightarrow> store_inv (cleanupStale now this)"
  by (simp add: cleanupStale_def store_inv_fold_cleanup)

lemma store_inv_new: "store_inv new_SessionManager"
  by (simp add: store_inv_def bound_one_to_one_def new_SessionManager_def)

lemma reachable_fresh_store_inv: "reachable_fresh this \<Longrightarrow> store_inv this"
proof (induction rule: reachable_fresh.induct)
  case fresh_start
  show ?case by (rule store_inv_new)
next
  case (fresh_getOrCreate this connectionId m now)
  then show ?case by (simp add: store_inv_getOrCreate)
next
  case (fresh_get this now connectionId)
  then show ?case by (simp add: store_inv_get)
next
  case (fresh_update this now connectionId updates session this')
  then show ?case using store_inv_update by blast
next
  case (fresh_cleanup this connectionId)
  then show ?case by (simp add: store_inv_cleanup)
next
  case (fresh_cleanupStale this now)
  then show ?case by (simp add: store_inv_cleanupStale)
qed

lemma reachable_fresh_reachable: "reachable_fresh this \<Longrightarrow> reachable this"
  by (induction rule: reachable_fresh.induct) (auto intro: reachable.intros)

lemma store_inv_referenced_once:
  assumes "store_inv this"
  shows "referenced_exactly_once this"
  unfolding referenced_exactly_once_def list_all_iff
proof
  fix row assume row: "row \<in> set (sessions this)"
  let ?conn = "connectionToSession this"
  have dk: "distinct (map fst ?conn)" using assms by (simp add: store_inv_def)
  then have d: "distinct ?conn" by (rule distinct_map [THEN iffD1, THEN conjunct1])
  from row have "map_of (sessions this) (fst row) \<noteq> None"
    by (metis domIff dom_map_of_conv_image_fst image_eqI)
  then obtain c where c: "map_of ?conn c = Some (fst row)"
    using assms unfolding store_inv_def bound_one_to_one_def by blast
  have "{b. snd b = fst row} \<inter> set ?conn = {(c, fst row)}"
  proof (rule set_eqI)
    fix b :: "string \<times> string"
    obtain c' x where b: "b = (c', x)" by (cases b)
    show "b \<in> {b. snd b = fst row} \<inter> set ?conn \<longleftrightarrow> b \<in> {(c, fst row)}"
    proof
      assume "b \<in> {b. snd b = fst row} \<inter> set ?conn"
      then have x: "x = fst row" and "(c', x) \<in> set ?conn" using b by auto
      then have "map_of ?conn c' = Some (fst row)" using dk by simp
      with c have "c' = c"
        using assms unfolding store_inv_def bound_one_to_one_def by blast
      with x b show "b \<in> {(c, fst row)}" by simp
    next
      assume "b \<in> {(c, fst row)}"
      then show "b \<in> {b. snd b = fst row} \<inter> set ?conn"
        using map_of_SomeD [OF c] by simp
    qed
  qed
  then show "length (filter (\<lambda>binding. snd binding = fst row) ?conn) = 1"
    using d by (simp add: distinct_length_filter)
qed

lemma bound_rows_touch:
  "bound_rows conn sess \<Longrightarrow> sess sid \<noteq> None \<Longrightarrow> bound_rows conn (sess(sid \<mapsto> s))"
  unfolding bound_rows_def by (simp; blast)

lemma bound_rows_create:
  assumes "bound_rows conn sess" and "sid \<noteq> []"
    and "\<And>x. conn c = Some x \<Longrightarrow> sess x = None"
  shows "bound_rows (conn(c \<mapsto> sid)) (sess(sid \<mapsto> s))"
proof -
  have 1: "x \<noteq> []" if "(conn(c \<mapsto> sid)) c' = Some x" for c' x
    using that assms(1,2) unfolding bound_rows_def by (cases "c' = c") auto
  have 2: "\<exists>c'. (conn(c \<mapsto> sid)) c' = Some x" if "(sess(sid \<mapsto> s)) x \<noteq> None" for x
  proof (cases "x = sid")
    case True
    then show ?thesis by (intro exI [of _ c]) simp
  next
    case False
    with that have row: "sess x \<noteq> None" by simp
    then obtain c' where c': "conn c' = Some x"
      using assms(1) unfolding bound_rows_def by blast
    with row assms(3) have "c' \<noteq> c" by auto
    with c' show ?thesis by (intro exI [of _ c']) simp
  qed
  show ?thesis
    unfolding bound_rows_def using 1 2 by blast
qed

lemma bound_rows_cleanup:
  assumes "bound_rows conn sess" and "conn c = Some sid"
  shows "bound_rows (conn(c := None)) (sess(sid := None))"
proof -
  have 1: "x \<noteq> []" if "(conn(c := None)) c' = Some x" for c' x
  proof -
    from that have "conn c' = Some x" by (auto split: if_splits)
    then show ?thesis using assms(1) unfolding bound_rows_def by blast
  qed
  have 2: "\<exists>c'. (conn(c := None)) c' = Some x" if "(sess(sid := None)) x \<noteq> None" for x
  proof -
    from that have "x \<noteq> sid" and "sess x \<noteq> None" by (auto split: if_splits)
    then obtain c' where c': "conn c' = Some x"
      using assms(1) unfolding bound_rows_def by blast
    with \<open>x \<noteq> sid\<close> assms(2) have "c' \<noteq> c" by auto
    with c' show ?thesis by (intro exI [of _ c']) simp
  qed
  show ?thesis
    unfolding bound_rows_def using 1 2 by blast
qed

lemma lookup_session_None_row:
  assumes "store_wf this" and "lookup_session this c = None"
    and "map_of (connectionToSession this) c = Some x"
  shows "map_of (sessions this) x = None"
proof (rule ccontr)
  assume "map_of (sessions this) x \<noteq> None"
  moreover from assms(1,3) have "x \<noteq> []"
    unfolding store_wf_def bound_rows_def by blast
  ultimately show False
    using assms(2,3) by (auto simp: lookup_session_def Map_get_def Map_has_def split: option.splits)
qed

lemma store_wf_touch:
  assumes "store_wf this" and "map_of (sessions this) sid \<noteq> None"
  shows "store_wf (this\<lparr>sessions := Map_set sid s' (sessions this)\<rparr>)"
  using assms bound_rows_touch [of "map_of (connectionToSession this)" "map_of (sessions this)" sid s']
  by (simp add: store_wf_def Map_set_def update_conv')

lemma store_wf_getOrCreate:
  assumes "store_wf this"
  shows "store_wf (snd (getOrCreate now m c this))"
proof (cases "lookup_session this c")
  case None
  have "bound_rows ((map_of (connectionToSession this))(c \<mapsto> mint_session_id m))
          ((map_of (sessions this))(mint_session_id m \<mapsto> s))" for s
    using assms lookup_session_None_row [OF assms None]
    by (intro bound_rows_create) (simp_all add: store_wf_def mint_session_id_nonempty)
  then show ?thesis
    using None assms
    by (simp add: getOrCreate_def Let_def store_wf_def Map_set_def distinct_update update_conv')
next
  case (Some p)
  obtain sid s where p: "p = (sid, s)" by (cases p)
  with Some lookup_session_Some have "map_of (sessions this) sid \<noteq> None" by fastforce
  then show ?thesis
    using Some p store_wf_touch [OF assms] by (simp add: getOrCreate_def Let_def)
qed

lemma store_wf_get:
  assumes "store_wf this"
  shows "store_wf (snd (get now c this))"
proof (cases "lookup_session this c")
  case None
  then show ?thesis using assms by (simp add: get_def)
next
  case (Some p)
  obtain sid s where p: "p = (sid, s)" by (cases p)
  with Some lookup_session_Some have "map_of (sessions this) sid \<noteq> None" by fastforce
  then show ?thesis
    using Some p store_wf_touch [OF assms] by (simp add: get_def Let_def)
qed

lemma store_wf_update:
  assumes "store_wf this" and "update now c u this = Inr (s', this')"
  shows "store_wf this'"
proof (cases "lookup_session this c")
  case None
  then show ?thesis using assms by (simp add: update_def)
next
  case (Some p)
  obtain sid s where p: "p = (sid, s)" by (cases p)
  with Some lookup_session_Some have "map_of (sessions this) sid \<noteq> None" by fastforce
  then show ?thesis
    using Some p assms(2) store_wf_touch [OF assms(1)] by (auto simp: update_def Let_def)
qed

lemma store_wf_cleanup:
  assumes "store_wf this"
  shows "store_wf (cleanup c this)"
proof (cases "map_of (connectionToSession this) c")
  case None
  then show ?thesis using assms by (simp add: cleanup_def Map_get_def)
next
  case (Some sid)
  then show ?thesis
    using assms bound_rows_cleanup [of "map_of (connectionToSession this)" "map_of (sessions this)" c sid]
    by (simp add: cleanup_def Map_get_def store_wf_def Map_delete_def distinct_delete delete_conv')
qed

lemma store_wf_fold_cleanup:
  "store_wf this \<Longrightarrow> store_wf (fold cleanup cs this)"
  by (induction cs arbitrary: this) (simp_all add: store_wf_cleanup)

lemma store_wf_cleanupStale:
  "store_wf this \<Longrightarrow> store_wf (cleanupStale now this)"
  by (simp add: cleanupStale_def store_wf_fold_cleanup)

lemma reachable_store_wf: "reachable this \<Longrightarrow> store_wf this"
proof (induction rule: reachable.induct)
  case start
  show ?case by (simp add: store_wf_def bound_rows_def new_SessionManager_def)
next
  case (step_getOrCreate this now m connectionId)
  then show ?case by (simp add: store_wf_getOrCreate)
next
  case (step_get this now connectionId)
  then show ?case by (simp add: store_wf_get)
next
  case (step_update this now connectionId updates session this')
  then show ?case using store_wf_update by blast
next
  case (step_cleanup this connectionId)
  then show ?case by (simp add: store_wf_cleanup)
next
  case (step_cleanupStale this now)
  then show ?case by (simp add: store_wf_cleanupStale)
qed

lemma cleanup_connectionToSession:
  assumes "store_wf this"
  shows "map_of (connectionToSession (cleanup c this)) = (map_of (connectionToSession this))(c := None)"
proof (cases "map_of (connectionToSession this) c")
  case None
  then show ?thesis by (auto simp: cleanup_def Map_get_def)
next
  case (Some sid)
  with assms have "sid \<noteq> []"
    unfolding store_wf_def bound_rows_def by blast
  with Some show ?thesis
    by (simp add: cleanup_def Map_get_def Map_delete_def delete_conv')
qed

lemma cleanup_sessions:
  assumes "store_wf this"
  shows "map_of (sessions (cleanup c this)) =
           (case map_of (connectionToSession this) c of
              None \<Rightarrow> map_of (sessions this)
            | Some sid \<Rightarrow> (map_of (sessions this))(sid := None))"
proof (cases "map_of (connectionToSession this) c")
  case None
  then show ?thesis by (simp add: cleanup_def Map_get_def)
next
  case (Some sid)
  with assms have "sid \<noteq> []"
    unfolding store_wf_def bound_rows_def by blast
  with Some show ?thesis
    by (simp add: cleanup_def Map_get_def Map_delete_def delete_conv')
qed

lemma fold_cleanup_connectionToSession:
  "store_wf this \<Longrightarrow>
   map_of (connectionToSession (fold cleanup cs this)) c =
     (if c \<in> set cs then None else map_of (connectionToSession this) c)"
proof (induction cs arbitrary: this)
  case Nil
  then show ?case by simp
next
  case (Cons a cs)
  from Cons.prems have "store_wf (cleanup a this)" by (rule store_wf_cleanup)
  from Cons.IH [OF this] show ?case
    by (simp add: cleanup_connectionToSession [OF Cons.prems])
qed

lemma fold_cleanup_sessions:
  "store_wf this \<Longrightarrow>
   map_of (sessions (fold cleanup cs this)) sid =
     (if \<exists>c \<in> set cs. map_of (connectionToSession this) c = Some sid then None
      else map_of (sessions this) sid)"
proof (induction cs arbitrary: this)
  case Nil
  then show ?case by simp
next
  case (Cons a cs)
  from Cons.prems have inv': "store_wf (cleanup a this)" by (rule store_wf_cleanup)
  show ?case
  proof (cases "map_of (connectionToSession this) a")
    case None
    then have "cleanup a this = this" by (simp add: cleanup_def Map_get_def)
    with Cons.IH [OF Cons.prems] None show ?thesis by auto
  next
    case (Some x)
    have conn': "map_of (connectionToSession (cleanup a this)) = (map_of (connectionToSession this))(a := None)"
      by (rule cleanup_connectionToSession [OF Cons.prems])
    have sess': "map_of (sessions (cleanup a this)) = (map_of (sessions this))(x := None)"
      using cleanup_sessions [OF Cons.prems, of a] Some by simp
    show ?thesis
    proof (cases "sid = x")
      case True
      with Cons.IH [OF inv'] Some sess' show ?thesis by auto
    next
      case False
      with Some have "(\<exists>c \<in> set cs. ((map_of (connectionToSession this))(a := None)) c = Some sid)
          \<longleftrightarrow> (\<exists>c \<in> set (a # cs). map_of (connectionToSession this) c = Some sid)"
        by (simp; metis option.inject)
      with Cons.IH [OF inv'] False show ?thesis
        by (simp add: conn' sess')
    qed
  qed
qed

lemma stale_connections:
  assumes "distinct (map fst conn)"
  shows "c \<in> set (map fst (filter P conn)) \<longleftrightarrow> (\<exists>sid. map_of conn c = Some sid \<and> P (c, sid))"
  using assms by (auto simp: image_iff)

lemma cleanupStale_sessions:
  assumes "store_wf this"
  shows "map_of (sessions (cleanupStale now this)) sid =
           (case map_of (sessions this) sid of
              None \<Rightarrow> None
            | Some session \<Rightarrow>
                if now - last_activity session > sessionTimeout then None else Some session)"
proof (cases "map_of (sessions this) sid")
  case None
  then show ?thesis
    by (simp add: cleanupStale_def fold_cleanup_sessions [OF assms])
next
  case (Some session)
  then obtain c where c: "map_of (connectionToSession this) c = Some sid"
    using assms unfolding store_wf_def bound_rows_def by blast
  have dk: "distinct (map fst (connectionToSession this))"
    using assms by (simp add: store_wf_def)
  have "(\<exists>c \<in> set (map fst (filter (is_stale now this) (connectionToSession this))).
           map_of (connectionToSession this) c = Some sid)
        \<longleftrightarrow> now - last_activity session > sessionTimeout"
    unfolding Bex_def stale_connections [OF dk]
  proof
    assume "\<exists>x. (\<exists>sid. map_of (connectionToSession this) x = Some sid \<and> is_stale now this (x, sid))
              \<and> map_of (connectionToSession this) x = Some sid"
    then have "is_stale now this (c, sid)"
      by (auto simp: is_stale_def)
    with Some show "now - last_activity session > sessionTimeout"
      by (simp add: is_stale_def Map_get_def)
  next
    assume "now - last_activity session > sessionTimeout"
    with Some have "is_stale now this (c, sid)"
      by (simp add: is_stale_def Map_get_def)
    with c show "\<exists>x. (\<exists>sid. map_of (connectionToSession this) x = Some sid \<and> is_stale now this (x, sid))
              \<and> map_of (connectionToSession this) x = Some sid"
      by blast
  qed
  then show ?thesis
    using Some by (simp add: cleanupStale_def Let_def fold_cleanup_sessions [OF assms])
qed

lemma cleanupStale_connectionToSession:
  assumes "store_wf this"
  shows "map_of (connectionToSession (cleanupStale now this)) c =
           (case map_of (connectionToSession this) c of
              None \<Rightarrow> None
            | Some sid \<Rightarrow>
                (case map_of (sessions this) sid of
                   None \<Rightarrow> Some sid
                 | Some session \<Rightarrow>
                     if now - last_activity session > sessionTimeout then None else Some sid))"
proof -
  have dk: "distinct (map fst (connectionToSession this))"
    using assms by (simp add: store_wf_def)
  show ?thesis
    unfolding cleanupStale_def Let_def fold_cleanup_connectionToSession [OF assms]
      stale_connections [OF dk]
    by (auto simp: is_stale_def Map_get_def split: option.splits)
qed

lemma reachable_one: "reachable (snd (getOrCreate 0 mint1 ''conn-1'' new_SessionManager))"
  by (rule reachable.step_getOrCreate [OF reachable.start])

lemma reachable_collision:
  "reachable (snd (getOrCreate 0 mint1 ''conn-2'' (snd (getOrCreate 0 mint1 ''conn-1'' new_SessionManager))))"
  by (rule reachable.step_getOrCreate [OF reachable_one])

lemma reachable_fresh_one:
  "reachable_fresh (snd (getOrCreate 0 mint1 ''conn-1'' new_SessionManager))"
  by (rule reachable_fresh.fresh_getOrCreate [OF reachable_fresh.fresh_start])
     (simp add: new_SessionManager_def Map_has_def)

lemma reachable_fresh_two:
  "reachable_fresh (cleanup ''conn-1''
     (snd (getOrCreate 5 mint2 ''conn-2'' (snd (getOrCreate 0 mint1 ''conn-1'' new_SessionManager)))))"
  by (rule reachable_fresh.fresh_cleanup, rule reachable_fresh.fresh_getOrCreate [OF reachable_fresh_one])
     (simp add: getOrCreate_def lookup_session_def new_SessionManager_def Map_get_def Map_has_def
        Map_set_def mint1_def mint2_def mint_session_id_def Let_def)

subsection \<open>Claims about the session manager\<close>

text \<open>
  C7, as amended.  Starting from the empty store, and provided that every session id that
  \<open>getOrCreate\<close> mints is fresh (not the key of a stored row), every state reached by
  \<open>getOrCreate\<close>, \<open>get\<close>, \<open>update\<close>, \<open>cleanup\<close> and \<open>cleanupStale\<close> binds each
  connection id to at most one session id, and every stored session row is referenced by
  exactly one connection binding: there is no orphan row and no shared row.
\<close>

theorem store_invariant_preserved:
  "reachable_fresh this \<Longrightarrow> one_session_per_connection this \<and> referenced_exactly_once this"
  using reachable_fresh_store_inv [of this] store_inv_referenced_once [of this]
  by (auto simp: one_session_per_connection_def store_inv_def)

text \<open>
  The claim as stated fails: \<open>getOrCreate\<close> does not check the id it mints.  When the
  clock and the random generator return for a second connection what they returned for the
  first, the one session row is referenced by two connection bindings.
\<close>

theorem store_invariant_collision_counterexample:
  "reachable (snd (getOrCreate 0 mint1 ''conn-2'' (snd (getOrCreate 0 mint1 ''conn-1'' new_SessionManager))))
   \<and> snd (getOrCreate 0 mint1 ''conn-2'' (snd (getOrCreate 0 mint1 ''conn-1'' new_SessionManager)))
       = \<lparr> sessions =
             [(''sess-a-b'',
               \<lparr> session_id = ''sess-a-b'', user_id = None, lang = Auto, budget_tokens = Finite 0,
                 tenant = None, created_at = 0, last_activity = 0 \<rparr>)],
           connectionToSession = [(''conn-1'', ''sess-a-b''), (''conn-2'', ''sess-a-b'')] \<rparr>
   \<and> \<not> referenced_exactly_once
       (snd (getOrCreate 0 mint1 ''conn-2'' (snd (getOrCreate 0 mint1 ''conn-1'' new_SessionManager))))"
proof -
  have s: "snd (getOrCreate 0 mint1 ''conn-2'' (snd (getOrCreate 0 mint1 ''conn-1'' new_SessionManager)))
       = \<lparr> sessions =
             [(''sess-a-b'',
               \<lparr> session_id = ''sess-a-b'', user_id = None, lang = Auto, budget_tokens = Finite 0,
                 tenant = None, created_at = 0, last_activity = 0 \<rparr>)],
           connectionToSession = [(''conn-1'', ''sess-a-b''), (''conn-2'', ''sess-a-b'')] \<rparr>"
    by (simp add: getOrCreate_def lookup_session_def new_SessionManager_def Map_get_def Map_has_def
        Map_set_def mint1_def mint_session_id_def Let_def)
  show ?thesis
    using reachable_collision by (simp add: s referenced_exactly_once_def)
qed

text \<open>
  An instance: two connections obtain a session each and the first connection is closed.
\<close>

theorem store_invariant_preserved_witness:
  "reachable_fresh (cleanup ''conn-1''
     (snd (getOrCreate 5 mint2 ''conn-2'' (snd (getOrCreate 0 mint1 ''conn-1'' new_SessionManager)))))
   \<and> one_session_per_connection (cleanup ''conn-1''
     (snd (getOrCreate 5 mint2 ''conn-2'' (snd (getOrCreate 0 mint1 ''conn-1'' new_SessionManager)))))
   \<and> referenced_exactly_once (cleanup ''conn-1''
     (snd (getOrCreate 5 mint2 ''conn-2'' (snd (getOrCreate 0 mint1 ''conn-1'' new_SessionManager)))))"
  using store_invariant_preserved [OF reachable_fresh_two] reachable_fresh_two by simp

text \<open>
  C6, as amended.  In every reachable store, \<open>cleanupStale\<close> removes a session row exactly
  when \<open>now - last_activity\<close> exceeds the session timeout, which is 30 minutes
  (1 800 000 ms); it removes the binding of a connection exactly when the session that the
  connection is bound to is removed, and leaves every other row and binding as it was.
\<close>

theorem cleanupStale_reclaims_after_timeout:
  "reachable this \<Longrightarrow>
     sessionTimeout = 30 * 60 * 1000 \<and>
     Map_get (sessions (cleanupStale now this)) sid =
       (case Map_get (sessions this) sid of
          None \<Rightarrow> None
        | Some session \<Rightarrow>
            if now - last_activity session > 30 * 60 * 1000 then None else Some session) \<and>
     Map_get (connectionToSession (cleanupStale now this)) c =
       (case Map_get (connectionToSession this) c of
          None \<Rightarrow> None
        | Some sid' \<Rightarrow>
            (case Map_get (sessions this) sid' of
               None \<Rightarrow> Some sid'
             | Some session \<Rightarrow>
                 if now - last_activity session > 30 * 60 * 1000 then None else Some sid'))"
  using cleanupStale_sessions [OF reachable_store_wf, of this now sid]
    cleanupStale_connectionToSession [OF reachable_store_wf, of this now c]
  unfolding Map_get_def sessionTimeout_def by simp

text \<open>
  The claim as stated fails: a session last active at time 0 is removed at time
  1 800 001 ms, which is far less than 7 days after its last activity.
\<close>

theorem cleanupStale_seven_days_counterexample:
  "Map_get (sessions (snd (getOrCreate 0 mint1 ''conn-1'' new_SessionManager))) ''sess-a-b''
     = Some \<lparr> session_id = ''sess-a-b'', user_id = None, lang = Auto, budget_tokens = Finite 0,
              tenant = None, created_at = 0, last_activity = 0 \<rparr>
   \<and> \<not> (1800001 - 0 > (7 * 24 * 60 * 60 * 1000 :: int))
   \<and> cleanupStale 1800001 (snd (getOrCreate 0 mint1 ''conn-1'' new_SessionManager))
       = \<lparr> sessions = [], connectionToSession = [] \<rparr>"
  by (simp add: getOrCreate_def lookup_session_def new_SessionManager_def Map_get_def Map_has_def
      Map_set_def Map_delete_def mint1_def mint_session_id_def cleanupStale_def is_stale_def
      sessionTimeout_def cleanup_def Let_def)

text \<open>
  An instance: the session is kept at exactly 30 minutes of inactivity and removed, with
  its binding, one millisecond later.
\<close>

theorem cleanupStale_reclaims_after_timeout_witness:
  "reachable (snd (getOrCreate 0 mint1 ''conn-1'' new_SessionManager))
   \<and> Map_get (sessions (cleanupStale 1800001 (snd (getOrCreate 0 mint1 ''conn-1'' new_SessionManager)))) ''sess-a-b'' = None
   \<and> Map_get (connectionToSession (cleanupStale 1800001 (snd (getOrCreate 0 mint1 ''conn-1'' new_SessionManager)))) ''conn-1'' = None
   \<and> Map_get (sessions (cleanupStale 1800000 (snd (getOrCreate 0 mint1 ''conn-1'' new_SessionManager)))) ''sess-a-b'' \<noteq> None"
  using cleanupStale_reclaims_after_timeout
      [OF reachable_one, of 1800001 "''sess-a-b''" "''conn-1''", THEN conjunct2]
    cleanupStale_reclaims_after_timeout
      [OF reachable_one, of 1800000 "''sess-a-b''" "''conn-1''", THEN conjunct2]
    reachable_one
  by (simp add: getOrCreate_def lookup_session_def new_SessionManager_def Map_get_def Map_has_def
      Map_set_def mint1_def mint_session_id_def Let_def)

lemma lookup_session_unbound:
  "map_of (connectionToSession this) c = None \<Longrightarrow> lookup_session this c = None"
  by (simp add: lookup_session_def Map_get_def)

lemma getOrCreate_unbound:
  assumes "map_of (connectionToSession this) c = None"
    and "map_of (sessions this) (mint_session_id m) = None"
  shows "getOrCreate now m c this =
     (let session = \<lparr> session_id = mint_session_id m, user_id = None, lang = Auto,
                       budget_tokens = Finite 0, tenant = None,
                       created_at = t_created m, last_activity = t_activity m \<rparr>
      in (session,
          this\<lparr>sessions := sessions this @ [(mint_session_id m, session)],
               connectionToSession := connectionToSession this @ [(c, mint_session_id m)]\<rparr>))"
  using assms
  by (simp add: getOrCreate_def lookup_session_unbound Map_set_def update_absent Let_def)

lemma getOrCreate_bound:
  assumes "map_of conn c = None" and "map_of sess sid = None" and "sid \<noteq> []"
  shows "getOrCreate now m c \<lparr> sessions = sess @ [(sid, row)], connectionToSession = conn @ [(c, sid)] \<rparr> =
     (row\<lparr>last_activity := now\<rparr>,
      \<lparr> sessions = sess @ [(sid, row\<lparr>last_activity := now\<rparr>)],
        connectionToSession = conn @ [(c, sid)] \<rparr>)"
proof -
  have "lookup_session \<lparr> sessions = sess @ [(sid, row)], connectionToSession = conn @ [(c, sid)] \<rparr> c
          = Some (sid, row)"
    using assms by (simp add: lookup_session_def Map_get_def Map_has_def map_add_def)
  moreover have "AList.update sid v (sess @ [(sid, row)]) = sess @ [(sid, v)]" for v
    using assms(2) by (induction sess) (auto split: if_splits)
  ultimately show ?thesis
    by (simp add: getOrCreate_def Map_set_def Let_def)
qed

lemma getOrCreate_times_bound:
  assumes "map_of conn c = None" and "map_of sess sid = None" and "sid \<noteq> []"
  shows "getOrCreate_times rest c \<lparr> sessions = sess @ [(sid, row)], connectionToSession = conn @ [(c, sid)] \<rparr> =
     (map (\<lambda>call. row\<lparr>last_activity := fst call\<rparr>) rest,
      \<lparr> sessions = sess @ [(sid, row\<lparr>last_activity := last (last_activity row # map fst rest)\<rparr>)],
        connectionToSession = conn @ [(c, sid)] \<rparr>)"
proof (induction rest arbitrary: row)
  case Nil
  show ?case by simp
next
  case (Cons call rest)
  obtain now m where call: "call = (now, m)" by (cases call)
  show ?case
    unfolding call
    by (simp add: getOrCreate_bound [OF assms] Cons.IH)
qed

text \<open>
  C5, as amended.  For a connection id that is not bound yet and a fresh minted id, \<open>N \<ge> 1\<close>
  calls of \<open>getOrCreate\<close> return \<open>N\<close> copies of one session that agree in every field
  except \<open>last_activity\<close>, which in each later copy is the time of that call; together the
  calls add exactly one session row and one connection binding to the store.
\<close>

theorem getOrCreate_repeated:
  assumes "Map_get (connectionToSession this) c = None"
    and "\<not> Map_has (sessions this) (mint_session_id m)"
  shows "getOrCreate_times ((now, m) # rest) c this =
     (let session = \<lparr> session_id = mint_session_id m, user_id = None, lang = Auto,
                       budget_tokens = Finite 0, tenant = None,
                       created_at = t_created m, last_activity = t_activity m \<rparr>
      in (session # map (\<lambda>call. session\<lparr>last_activity := fst call\<rparr>) rest,
          \<lparr> sessions = sessions this @
               [(mint_session_id m, session\<lparr>last_activity := last (t_activity m # map fst rest)\<rparr>)],
            connectionToSession = connectionToSession this @ [(c, mint_session_id m)] \<rparr>))"
proof -
  from assms have unbound: "map_of (connectionToSession this) c = None"
    and fresh: "map_of (sessions this) (mint_session_id m) = None"
    by (simp_all add: Map_get_def Map_has_def)
  have lit: "this\<lparr>sessions := a, connectionToSession := b\<rparr>
               = \<lparr> sessions = a, connectionToSession = b \<rparr>" for a b
    by (cases this) simp
  show ?thesis
    by (simp add: getOrCreate_unbound [OF unbound fresh] Let_def lit
        getOrCreate_times_bound [OF unbound fresh mint_session_id_nonempty] del: last.simps)
qed

text \<open>
  The claim as stated fails: two calls for one connection, at times 1000 and 2000 with
  nothing in between, return copies that are not equal.
\<close>

theorem getOrCreate_copies_differ_counterexample:
  "fst (getOrCreate_times [(1000, mint2), (2000, mint2)] ''conn-1'' new_SessionManager) =
     [\<lparr> session_id = ''sess-rs-k3x9q2a'', user_id = None, lang = Auto, budget_tokens = Finite 0,
         tenant = None, created_at = 1000, last_activity = 1000 \<rparr>,
      \<lparr> session_id = ''sess-rs-k3x9q2a'', user_id = None, lang = Auto, budget_tokens = Finite 0,
         tenant = None, created_at = 1000, last_activity = 2000 \<rparr>]
   \<and> \<lparr> session_id = ''sess-rs-k3x9q2a'', user_id = None, lang = Auto, budget_tokens = Finite 0,
         tenant = None, created_at = 1000, last_activity = 1000 \<rparr>
     \<noteq> \<lparr> session_id = ''sess-rs-k3x9q2a'', user_id = None, lang = Auto, budget_tokens = Finite 0,
         tenant = None, created_at = 1000, last_activity = (2000::int) \<rparr>"
  by (simp add: getOrCreate_def lookup_session_def new_SessionManager_def Map_get_def Map_has_def
      Map_set_def mint2_def mint_session_id_def Let_def)

text \<open>An instance: three calls on the empty store.\<close>

theorem getOrCreate_repeated_witness:
  "Map_get (connectionToSession new_SessionManager) ''conn-1'' = None
   \<and> \<not> Map_has (sessions new_SessionManager) (mint_session_id mint2)
   \<and> getOrCreate_times [(1000, mint2), (2000, mint2), (2500, mint2)] ''conn-1'' new_SessionManager =
     ([\<lparr> session_id = ''sess-rs-k3x9q2a'', user_id = None, lang = Auto, budget_tokens = Finite 0,
          tenant = None, created_at = 1000, last_activity = 1000 \<rparr>,
       \<lparr> session_id = ''sess-rs-k3x9q2a'', user_id = None, lang = Auto, budget_tokens = Finite 0,
          tenant = None, created_at = 1000, last_activity = 2000 \<rparr>,
       \<lparr> session_id = ''sess-rs-k3x9q2a'', user_id = None, lang = Auto, budget_tokens = Finite 0,
          tenant = None, created_at = 1000, last_activity = 2500 \<rparr>],
      \<lparr> sessions = [(''sess-rs-k3x9q2a'',
           \<lparr> session_id = ''sess-rs-k3x9q2a'', user_id = None, lang = Auto, budget_tokens = Finite 0,
              tenant = None, created_at = 1000, last_activity = 2500 \<rparr>)],
        connectionToSession = [(''conn-1'', ''sess-rs-k3x9q2a'')] \<rparr>)"
proof -
  have a: "Map_get (connectionToSession new_SessionManager) ''conn-1'' = None"
    by (simp add: new_SessionManager_def Map_get_def)
  have b: "\<not> Map_has (sessions new_SessionManager) (mint_session_id mint2)"
    by (simp add: new_SessionManager_def Map_has_def)
  show ?thesis
    using a b getOrCreate_repeated [OF a b, of 1000 "[(2000, mint2), (2500, mint2)]"]
    by (simp add: new_SessionManager_def mint2_def mint_session_id_def Let_def)
qed

subsection \<open>The front-end: extraction, context and request body\<close>

lemma assign_plain:
  "key \<noteq> ''__proto__'' \<Longrightarrow> assign key v obj = obj\<lparr>own := Map_set key v (own obj)\<rparr>"
  by (simp add: assign_def)

lemma clean_entries_filter:
  assumes "distinct (map fst es)" and "''__proto__'' \<notin> set (map fst es)"
    and "set (map fst es) \<inter> set (map fst acc) = {}"
  shows "clean_entries es \<lparr> own = acc, proto = p \<rparr> =
           \<lparr> own = acc @ filter (\<lambda>e. fst e \<notin> set RESERVED_WRAPPER_KEYS) es, proto = p \<rparr>"
  using assms
proof (induction es arbitrary: acc)
  case Nil
  show ?case by simp
next
  case (Cons e es)
  obtain key v where e: "e = (key, v)" by (cases e)
  from Cons.prems e have d: "distinct (map fst es)" and np: "''__proto__'' \<notin> set (map fst es)"
    and key: "key \<noteq> ''__proto__''" and fresh: "key \<notin> set (map fst acc)"
    and rest: "key \<notin> set (map fst es)" and disj: "set (map fst es) \<inter> set (map fst acc) = {}"
    by auto
  show ?case
  proof (cases "key \<in> set RESERVED_WRAPPER_KEYS")
    case True
    then show ?thesis
      using Cons.IH [OF d np disj] e by simp
  next
    case False
    from fresh have "map_of acc key = None" by (simp add: map_of_eq_None_iff)
    then have upd: "AList.update key v acc = acc @ [(key, v)]" by (rule update_absent)
    have disj': "set (map fst es) \<inter> set (map fst (acc @ [(key, v)])) = {}"
      using disj rest by auto
    show ?thesis
      using Cons.IH [OF d np disj'] e False key
      by (simp add: assign_plain Map_set_def upd)
  qed
qed

lemma extractEnvelope_filter:
  assumes "distinct (map fst (unwrap_arguments raw))"
    and "''__proto__'' \<notin> set (map fst (unwrap_arguments raw))"
  shows "extractEnvelope raw =
           \<lparr> own = filter (\<lambda>e. fst e \<notin> set RESERVED_WRAPPER_KEYS) (unwrap_arguments raw),
             proto = None \<rparr>"
  using clean_entries_filter [OF assms, of "[]" None]
  by (simp add: extractEnvelope_def empty_object_def)

lemma map_of_filter_keys:
  "map_of (filter (\<lambda>e. fst e \<notin> A) es) k = (if k \<in> A then None else map_of es k)"
  by (induction es) auto

lemma extractEnvelope_read:
  assumes "distinct (map fst (unwrap_arguments raw))"
    and "''__proto__'' \<notin> set (map fst (unwrap_arguments raw))"
  shows "read_prop (extractEnvelope raw) k =
           (if k \<in> set RESERVED_WRAPPER_KEYS then None else Map_get (unwrap_arguments raw) k)"
  by (simp add: extractEnvelope_filter [OF assms] read_prop_def Map_get_def map_of_filter_keys
      split: option.splits)

lemma extractEnvelope_callable:
  assumes "distinct (map fst (unwrap_arguments raw))"
    and "''__proto__'' \<notin> set (map fst (unwrap_arguments raw))"
  shows "hasOwnProperty_callable (extractEnvelope raw)
           \<longleftrightarrow> Map_get (unwrap_arguments raw) ''hasOwnProperty'' = None"
proof -
  have "''hasOwnProperty'' \<notin> set RESERVED_WRAPPER_KEYS"
    by (simp add: RESERVED_WRAPPER_KEYS_def)
  then show ?thesis
    by (simp add: extractEnvelope_filter [OF assms] hasOwnProperty_callable_def Map_get_def
        map_of_filter_keys)
qed

lemma array_join_TypeError:
  "(array_join_element B v = Inl e \<longrightarrow> e = TypeError)"
  "(array_join B xs = Inl e \<longrightarrow> e = TypeError)"
  by (induction B v and B xs rule: array_join_element_array_join.induct)
     (auto split: sum.splits if_splits)

lemma Number_js_TypeError: "Number_js B v = Inl e \<Longrightarrow> e = TypeError"
proof (cases v)
  case None
  then show "Number_js B v = Inl e \<Longrightarrow> e = TypeError" by simp
next
  case (Some x)
  then show "Number_js B v = Inl e \<Longrightarrow> e = TypeError"
    using array_join_TypeError(2) [of B _ e]
    by (cases x) (auto split: sum.splits if_splits)
qed

lemma getOrCreate_lookup:
  "\<exists>sid. lookup_session (snd (getOrCreate now m c this)) c = Some (sid, fst (getOrCreate now m c this))"
proof (cases "lookup_session this c")
  case None
  then show ?thesis
    by (simp add: getOrCreate_def Let_def lookup_session_def Map_get_def Map_has_def Map_set_def
        update_conv' mint_session_id_nonempty)
next
  case (Some p)
  obtain sid s where p: "p = (sid, s)" by (cases p)
  from Some p lookup_session_Some [of this c sid s]
  have "map_of (connectionToSession this) c = Some sid" and "sid \<noteq> []" by simp_all
  with Some p show ?thesis
    by (simp add: getOrCreate_def Let_def lookup_session_def Map_get_def Map_has_def Map_set_def
        update_conv')
qed

lemma getConnectionId_nonempty: "fst (getConnectionId rt bridge) \<noteq> []"
  by (simp add: getConnectionId_def generateConnectionId_def split: option.splits)

lemma getConnectionId_current:
  "currentConnectionId (snd (getConnectionId rt bridge)) = Some (fst (getConnectionId rt bridge))"
  by (simp add: getConnectionId_def split: option.splits)

lemma getConnectionId_again:
  "currentConnectionId bridge = Some cid \<Longrightarrow> cid \<noteq> [] \<Longrightarrow> getConnectionId rt bridge = (cid, bridge)"
  by (simp add: getConnectionId_def)

lemma ensureContext_bound:
  "\<exists>sid s. lookup_session (sessionManager (snd (ensureContext rt bridge))) (connection_of rt bridge) = Some (sid, s)
     \<and> fst (ensureContext rt bridge) = \<lparr> session_id = session_id s, user_id = user_id s, lang = lang s,
            budget_tokens = budget_tokens s, tenant = tenant s \<rparr>
     \<and> s = fst (getOrCreate (now_touch rt) (mint rt) (connection_of rt bridge) (sessionManager bridge))
     \<and> currentConnectionId (snd (ensureContext rt bridge)) = Some (connection_of rt bridge)"
proof -
  obtain cid b1 where g: "getConnectionId rt bridge = (cid, b1)" by (cases "getConnectionId rt bridge")
  have sm: "sessionManager b1 = sessionManager bridge"
    using g by (auto simp: getConnectionId_def split: option.splits if_splits)
  have cur: "currentConnectionId b1 = Some cid"
    using getConnectionId_current [of rt bridge] g by simp
  obtain s m' where goc: "getOrCreate (now_touch rt) (mint rt) cid (sessionManager bridge) = (s, m')"
    by (cases "getOrCreate (now_touch rt) (mint rt) cid (sessionManager bridge)")
  from getOrCreate_lookup [of "now_touch rt" "mint rt" cid "sessionManager bridge"] goc
  obtain sid where "lookup_session m' cid = Some (sid, s)" by auto
  then show ?thesis
    using g sm cur goc by (simp add: ensureContext_def connection_of_def)
qed

lemma merge_session_id_fst:
  "fst (merge_session_id raw st) = (fst st)\<lparr>session_id :=
     (case get_prop raw ''session_id'' of
        Some (JStr s) \<Rightarrow> if trim s \<noteq> [] then trim s else session_id (fst st)
      | _ \<Rightarrow> session_id (fst st))\<rparr>"
  by (cases st) (simp add: merge_session_id_def split: option.splits json.splits)

lemma merge_user_id_fst:
  "fst (merge_user_id raw st) = (fst st)\<lparr>user_id :=
     (case get_prop raw ''user_id'' of
        Some (JStr s) \<Rightarrow> if trim s \<noteq> [] then Some (trim s) else user_id (fst st)
      | Some JNull \<Rightarrow> None
      | _ \<Rightarrow> user_id (fst st))\<rparr>"
  by (cases st) (simp add: merge_user_id_def split: option.splits json.splits)

lemma merge_lang_fst:
  "fst (merge_lang raw st) = (fst st)\<lparr>lang :=
     (case lang_of_json (get_prop raw ''lang'') of Some l \<Rightarrow> l | None \<Rightarrow> lang (fst st))\<rparr>"
  by (cases st) (simp add: merge_lang_def split: option.splits)

lemma merge_budget_tokens_fst:
  "fst (merge_budget_tokens n st) = (fst st)\<lparr>budget_tokens :=
     (case n of
        Finite r \<Rightarrow> if r \<ge> 0 then Finite r else budget_tokens (fst st)
      | _ \<Rightarrow> budget_tokens (fst st))\<rparr>"
  by (cases st) (simp add: merge_budget_tokens_def split: jsnum.splits)

lemma merge_tenant_fst:
  "fst (merge_tenant raw st) = (fst st)\<lparr>tenant :=
     (case get_prop raw ''tenant'' of
        Some (JStr s) \<Rightarrow> if trim s \<noteq> [] then Some (trim s) else tenant (fst st)
      | Some JNull \<Rightarrow> None
      | _ \<Rightarrow> tenant (fst st))\<rparr>"
  by (cases st) (simp add: merge_tenant_def split: option.splits json.splits)

lemma merge_chain:
  "fst (merge_tenant raw (merge_budget_tokens n (merge_lang raw
      (merge_user_id raw (merge_session_id raw (base, no_updates, False))))))
   = merged_context base raw n"
  by (cases base)
     (simp add: merge_tenant_fst merge_budget_tokens_fst merge_lang_fst merge_user_id_fst
        merge_session_id_fst merged_context_def
        cong: option.case_cong json.case_cong jsnum.case_cong if_cong)

lemma coalesceContext_result:
  "\<exists>bridge'. coalesceContext B rt input bridge =
     (case input of
        None \<Rightarrow> Inr (fst (ensureContext rt bridge))
      | Some raw \<Rightarrow>
          if truthy input \<and> typeof input = T_object
          then (case Number_js B (get_prop raw ''budget_tokens'') of
                  Inl e \<Rightarrow> Inl TypeError
                | Inr n \<Rightarrow> Inr (merged_context (fst (ensureContext rt bridge)) raw n))
          else Inr (fst (ensureContext rt bridge)),
      bridge')"
proof -
  obtain base b1 where e: "ensureContext rt bridge = (base, b1)" by (cases "ensureContext rt bridge")
  from ensureContext_bound [of rt bridge] e obtain sid s where
    l: "lookup_session (sessionManager b1) (connection_of rt bridge) = Some (sid, s)"
    and cur: "currentConnectionId b1 = Some (connection_of rt bridge)" by auto
  have again: "getConnectionId rt b1 = (connection_of rt bridge, b1)"
    using getConnectionId_again [OF cur] getConnectionId_nonempty [of rt bridge]
    by (simp add: connection_of_def)
  show ?thesis
  proof (cases input)
    case None
    then show ?thesis using e by (simp add: coalesceContext_def)
  next
    case (Some raw)
    show ?thesis
    proof (cases "truthy input \<and> typeof input = T_object")
      case False
      then show ?thesis using e Some by (auto simp: coalesceContext_def)
    next
      case True
      show ?thesis
      proof (cases "Number_js B (get_prop raw ''budget_tokens'')")
        case (Inl err)
        then have "err = TypeError" by (rule Number_js_TypeError)
        with Inl e Some True show ?thesis
          by (auto simp: coalesceContext_def Let_def)
      next
        case (Inr n)
        obtain base' updates hasUpdates where
          m: "merge_tenant raw (merge_budget_tokens n (merge_lang raw
                (merge_user_id raw (merge_session_id raw (base, no_updates, False)))))
              = (base', updates, hasUpdates)"
          using prod_cases3 by blast
        from merge_chain [of raw n base] m have b: "base' = merged_context base raw n" by simp
        show ?thesis
          using e Some True Inr m b again l
          by (auto simp: coalesceContext_def update_def Let_def)
      qed
    qed
  qed
qed

lemma read_assign_same:
  "key \<noteq> ''__proto__'' \<Longrightarrow> read_prop (assign key v obj) key = Some v"
  by (simp add: assign_plain read_prop_def Map_get_def Map_set_def update_conv')

lemma read_assign_other:
  "key \<noteq> ''__proto__'' \<Longrightarrow> k \<noteq> key \<Longrightarrow> read_prop (assign key v obj) k = read_prop obj k"
  by (simp add: assign_plain read_prop_def Map_get_def Map_set_def update_conv'
      cong: option.case_cong)

lemma callEye_body_result:
  "\<exists>bridge'. callEye_body B rt body bridge =
     (if Map_get body ''hasOwnProperty'' \<noteq> None \<or> \<not> hasOwnProperty_callable (extractEnvelope body)
      then Inl TypeError
      else case fst (coalesceContext B rt (read_prop (extractEnvelope body) ''context'') bridge) of
             Inl e \<Rightarrow> Inl e
           | Inr mergedContext \<Rightarrow>
               Inr (JObj [(''context'', JSON_wire (context_json mergedContext)),
                          (''payload'',
                             JSON_wire (case read_prop (extractEnvelope body) ''payload'' of
                                Some (JObj kvs) \<Rightarrow> JObj kvs
                              | Some (JArr xs) \<Rightarrow> JArr xs
                              | _ \<Rightarrow> JObj [])),
                          (''reasoning_md'',
                             (case read_prop (extractEnvelope body) ''reasoning_md'' of
                                Some v \<Rightarrow> if truthy (Some v) then JSON_wire v else JNull
                              | None \<Rightarrow> JNull))]),
      bridge')"
proof (cases "Map_get body ''hasOwnProperty'' \<noteq> None \<or> \<not> hasOwnProperty_callable (extractEnvelope body)")
  case True
  then show ?thesis by (auto simp: callEye_body_def Let_def)
next
  case False
  obtain r bridge' where
    c: "coalesceContext B rt (read_prop (extractEnvelope body) ''context'') bridge = (r, bridge')"
    by (cases "coalesceContext B rt (read_prop (extractEnvelope body) ''context'') bridge")
  show ?thesis
  proof (cases r)
    case (Inl e)
    with False c show ?thesis by (simp add: callEye_body_def Let_def)
  next
    case (Inr mergedContext)
    with False c show ?thesis
      by (auto simp: callEye_body_def Let_def read_assign_same read_assign_other or_null_def
          split: option.splits json.splits)
  qed
qed

lemma callEye_body_fields:
  assumes "fst (callEye_body B rt body bridge) = Inr sent"
  shows "\<exists>ctx pl r. sent = JObj [(''context'', ctx), (''payload'', pl), (''reasoning_md'', r)]"
  using callEye_body_result [of B rt body bridge] assms
  by (auto split: if_splits sum.splits)

lemma callEye_body_plain:
  assumes "distinct (map fst (unwrap_arguments body))"
    and "''__proto__'' \<notin> set (map fst (unwrap_arguments body))"
  shows "\<exists>ctx bridge'. callEye_body B rt body bridge =
     (if call_throws B body then Inl TypeError
      else Inr (JObj [(''context'', ctx),
                      (''payload'',
                         JSON_wire (case Map_get (unwrap_arguments body) ''payload'' of
                            Some (JObj kvs) \<Rightarrow> JObj kvs
                          | Some (JArr xs) \<Rightarrow> JArr xs
                          | _ \<Rightarrow> JObj [])),
                      (''reasoning_md'',
                         (case Map_get (unwrap_arguments body) ''reasoning_md'' of
                            Some v \<Rightarrow> if truthy (Some v) then JSON_wire v else JNull
                          | None \<Rightarrow> JNull))]),
      bridge')"
proof -
  have rd: "read_prop (extractEnvelope body) ''context'' = Map_get (unwrap_arguments body) ''context''"
    "read_prop (extractEnvelope body) ''payload'' = Map_get (unwrap_arguments body) ''payload''"
    "read_prop (extractEnvelope body) ''reasoning_md'' = Map_get (unwrap_arguments body) ''reasoning_md''"
    by (simp_all add: extractEnvelope_read [OF assms] RESERVED_WRAPPER_KEYS_def)
  note cl = extractEnvelope_callable [OF assms]
  from coalesceContext_result [of B rt "Map_get (unwrap_arguments body) ''context''" bridge]
  obtain b' where co: "coalesceContext B rt (Map_get (unwrap_arguments body) ''context'') bridge =
     (case Map_get (unwrap_arguments body) ''context'' of
        None \<Rightarrow> Inr (fst (ensureContext rt bridge))
      | Some raw \<Rightarrow>
          if truthy (Map_get (unwrap_arguments body) ''context'')
             \<and> typeof (Map_get (unwrap_arguments body) ''context'') = T_object
          then (case Number_js B (get_prop raw ''budget_tokens'') of
                  Inl e \<Rightarrow> Inl TypeError
                | Inr n \<Rightarrow> Inr (merged_context (fst (ensureContext rt bridge)) raw n))
          else Inr (fst (ensureContext rt bridge)),
      b')" by blast
  have th: "budget_conversion_throws B (Map_get (unwrap_arguments body) ''context'')
      \<longleftrightarrow> fst (coalesceContext B rt (Map_get (unwrap_arguments body) ''context'') bridge) = Inl TypeError"
    unfolding co
    by (auto simp: budget_conversion_throws_def split: option.splits sum.splits dest: Number_js_TypeError)
  have ne: "fst (coalesceContext B rt (Map_get (unwrap_arguments body) ''context'') bridge) = Inl e
      \<Longrightarrow> e = TypeError" for e
    unfolding co by (auto split: option.splits sum.splits if_splits)
  from callEye_body_result [of B rt body bridge] obtain bridge' where
    res: "callEye_body B rt body bridge =
     (if Map_get body ''hasOwnProperty'' \<noteq> None \<or> \<not> hasOwnProperty_callable (extractEnvelope body)
      then Inl TypeError
      else case fst (coalesceContext B rt (read_prop (extractEnvelope body) ''context'') bridge) of
             Inl e \<Rightarrow> Inl e
           | Inr mergedContext \<Rightarrow>
               Inr (JObj [(''context'', JSON_wire (context_json mergedContext)),
                          (''payload'',
                             JSON_wire (case read_prop (extractEnvelope body) ''payload'' of
                                Some (JObj kvs) \<Rightarrow> JObj kvs
                              | Some (JArr xs) \<Rightarrow> JArr xs
                              | _ \<Rightarrow> JObj [])),
                          (''reasoning_md'',
                             (case read_prop (extractEnvelope body) ''reasoning_md'' of
                                Some v \<Rightarrow> if truthy (Some v) then JSON_wire v else JNull
                              | None \<Rightarrow> JNull))]),
      bridge')" by blast
  show ?thesis
  proof (cases "fst (coalesceContext B rt (Map_get (unwrap_arguments body) ''context'') bridge)")
    case (Inl e)
    with ne have "e = TypeError" by simp
    with Inl th res show ?thesis
      by (simp add: rd cl call_throws_def)
  next
    case (Inr mergedContext)
    with th have "\<not> budget_conversion_throws B (Map_get (unwrap_arguments body) ''context'')" by simp
    with Inr res show ?thesis
      by (auto simp: rd cl call_throws_def)
  qed
qed


subsection \<open>Claims about the front-end\<close>










subsection \<open>Validation against the input schema\<close>























subsection \<open>Claims about the input schema and the request body\<close>




lemma inputSchema_undeclared_key:
  assumes "Map_get args k \<noteq> None" and "k \<notin> set [''context'', ''payload'', ''reasoning_md'']"
  shows "\<not> valid inputSchema (JObj args)"
proof
  from assms(1) have k: "k \<in> set (map fst args)"
    by (simp add: Map_get_def map_of_eq_None_iff)
  assume "valid inputSchema (JObj args)"
  then have "\<forall>k \<in> set (map fst args). k \<in> set [''context'', ''payload'', ''reasoning_md'']"
    by (simp add: inputSchema_def)
  with k have "k \<in> set [''context'', ''payload'', ''reasoning_md'']"
    by blast
  with assms(2) show False by simp
qed

text \<open>
  C2, as amended.  The bridge has no relaxed mode.  Its input schema rejects arguments
  that carry a \<open>strict_mode\<close> key.  Every body that \<open>callEye\<close> submits consists of
  \<open>context\<close>, \<open>payload\<close> and \<open>reasoning_md\<close> only, whatever the call holds:
  \<open>strict_mode\<close> is never part of it.  And a body is submitted for every call whose
  unwrapped mapping has each key once and no key \<open>__proto__\<close>, unless the call throws
  on the conditions of \<open>call_throws\<close>.
\<close>

theorem relaxed_mode_and_bridge_body:
  "(fst (callEye_body B rt args bridge) = Inr sent \<longrightarrow>
      (\<exists>ctx pl r. sent = JObj [(''context'', ctx), (''payload'', pl), (''reasoning_md'', r)])
      \<and> get_prop sent ''strict_mode'' = None)
   \<and> (distinct (map fst (unwrap_arguments args))
        \<and> ''__proto__'' \<notin> set (map fst (unwrap_arguments args)) \<and> \<not> call_throws B args
      \<longrightarrow> (\<exists>sent'. fst (callEye_body B rt args bridge) = Inr sent'))
   \<and> (Map_get args ''strict_mode'' \<noteq> None \<longrightarrow> \<not> valid inputSchema (JObj args))"
proof (intro conjI impI)
  assume "fst (callEye_body B rt args bridge) = Inr sent"
  from callEye_body_fields [OF this]
  show "\<exists>ctx pl r. sent = JObj [(''context'', ctx), (''payload'', pl), (''reasoning_md'', r)]" .
  then show "get_prop sent ''strict_mode'' = None"
    by auto
next
  assume a: "distinct (map fst (unwrap_arguments args))
        \<and> ''__proto__'' \<notin> set (map fst (unwrap_arguments args)) \<and> \<not> call_throws B args"
  then have d: "distinct (map fst (unwrap_arguments args))"
    and p: "''__proto__'' \<notin> set (map fst (unwrap_arguments args))"
    and t: "\<not> call_throws B args"
    by simp_all
  from callEye_body_plain [OF d p, of B rt bridge] t
  show "\<exists>sent'. fst (callEye_body B rt args bridge) = Inr sent'"
    by auto
next
  assume "Map_get args ''strict_mode'' \<noteq> None"
  then show "\<not> valid inputSchema (JObj args)"
    by (rule inputSchema_undeclared_key) simp
qed

text \<open>
  The claim as stated fails: a call with \<open>strict_mode = false\<close> and an \<open>intent\<close> of
  four characters is rejected by the input schema of the bridge, and when it is handed to
  \<open>callEye\<close> all the same, it is sent on without \<open>strict_mode\<close>.
\<close>

theorem bridge_body_strict_mode_counterexample:
  "Map_get [(''payload'', JObj [(''intent'', JStr ''test'')]), (''strict_mode'', JBool False)]
      ''strict_mode'' = Some (JBool False)
   \<and> \<not> valid inputSchema
        (JObj [(''payload'', JObj [(''intent'', JStr ''test'')]), (''strict_mode'', JBool False)])
   \<and> fst (callEye_body B0 rt0
        [(''payload'', JObj [(''intent'', JStr ''test'')]), (''strict_mode'', JBool False)] bridge0)
      = Inr (JObj [(''context'',
                      JObj [(''session_id'', JStr ''sess-rs-k3x9q2a''), (''user_id'', JNull),
                            (''lang'', JStr ''auto''), (''budget_tokens'', JNum (Finite 0)),
                            (''tenant'', JNull)]),
                   (''payload'', JObj [(''intent'', JStr ''test'')]),
                   (''reasoning_md'', JNull)])
   \<and> get_prop (JObj [(''context'',
                      JObj [(''session_id'', JStr ''sess-rs-k3x9q2a''), (''user_id'', JNull),
                            (''lang'', JStr ''auto''), (''budget_tokens'', JNum (Finite 0)),
                            (''tenant'', JNull)]),
                   (''payload'', JObj [(''intent'', JStr ''test'')]),
                   (''reasoning_md'', JNull)]) ''strict_mode'' = None"
proof -
  have "\<not> valid inputSchema
        (JObj [(''payload'', JObj [(''intent'', JStr ''test'')]), (''strict_mode'', JBool False)])"
    by (rule inputSchema_undeclared_key [of _ "''strict_mode''"]) (simp_all add: Map_get_def)
  then show ?thesis
    by (simp add: callEye_body_def extractEnvelope_def unwrap_arguments_def empty_object_def
      assign_def proto_accessor_found_def read_prop_def hasOwnProperty_callable_def
      RESERVED_WRAPPER_KEYS_def coalesceContext_def ensureContext_def getConnectionId_def
      generateConnectionId_def getOrCreate_def lookup_session_def new_SessionManager_def
      Map_get_def Map_has_def Map_set_def mint2_def mint_session_id_def B0_def rt0_def bridge0_def
      context_json_def string_or_null_def lang_string_def or_null_def Let_def)
qed

text \<open>An instance: the relaxed call of the second end-to-end scenario.\<close>

theorem relaxed_mode_and_bridge_body_witness:
  "fst (callEye_body B0 rt0
        [(''payload'', JObj [(''intent'', JStr ''test'')]), (''strict_mode'', JBool False)] bridge0)
      = Inr (JObj [(''context'',
                      JObj [(''session_id'', JStr ''sess-rs-k3x9q2a''), (''user_id'', JNull),
                            (''lang'', JStr ''auto''), (''budget_tokens'', JNum (Finite 0)),
                            (''tenant'', JNull)]),
                   (''payload'', JObj [(''intent'', JStr ''test'')]),
                   (''reasoning_md'', JNull)])
   \<and> distinct (map fst (unwrap_arguments
      [(''payload'', JObj [(''intent'', JStr ''test'')]), (''strict_mode'', JBool False)]))
   \<and> ''__proto__'' \<notin> set (map fst (unwrap_arguments
      [(''payload'', JObj [(''intent'', JStr ''test'')]), (''strict_mode'', JBool False)]))
   \<and> \<not> call_throws B0
      [(''payload'', JObj [(''intent'', JStr ''test'')]), (''strict_mode'', JBool False)]
   \<and> Map_get [(''payload'', JObj [(''intent'', JStr ''test'')]), (''strict_mode'', JBool False)]
        ''strict_mode'' \<noteq> None
   \<and> \<not> valid inputSchema
     (JObj [(''payload'', JObj [(''intent'', JStr ''test'')]), (''strict_mode'', JBool False)])"
proof -
  have c: "fst (callEye_body B0 rt0
        [(''payload'', JObj [(''intent'', JStr ''test'')]), (''strict_mode'', JBool False)] bridge0)
      = Inr (JObj [(''context'',
                      JObj [(''session_id'', JStr ''sess-rs-k3x9q2a''), (''user_id'', JNull),
                            (''lang'', JStr ''auto''), (''budget_tokens'', JNum (Finite 0)),
                            (''tenant'', JNull)]),
                   (''payload'', JObj [(''intent'', JStr ''test'')]),
                   (''reasoning_md'', JNull)])"
    by (simp add: callEye_body_def extractEnvelope_def unwrap_arguments_def empty_object_def
      assign_def proto_accessor_found_def read_prop_def hasOwnProperty_callable_def
      RESERVED_WRAPPER_KEYS_def coalesceContext_def ensureContext_def getConnectionId_def
      generateConnectionId_def getOrCreate_def lookup_session_def new_SessionManager_def
      Map_get_def Map_has_def Map_set_def mint2_def mint_session_id_def B0_def rt0_def bridge0_def
      context_json_def string_or_null_def lang_string_def or_null_def Let_def)
  have m: "Map_get [(''payload'', JObj [(''intent'', JStr ''test'')]), (''strict_mode'', JBool False)]
        ''strict_mode'' \<noteq> None"
    by (simp add: Map_get_def)
  from relaxed_mode_and_bridge_body
    [of B0 rt0
        "[(''payload'', JObj [(''intent'', JStr ''test'')]), (''strict_mode'', JBool False)]"
        bridge0
        "JObj [(''context'',
                      JObj [(''session_id'', JStr ''sess-rs-k3x9q2a''), (''user_id'', JNull),
                            (''lang'', JStr ''auto''), (''budget_tokens'', JNum (Finite 0)),
                            (''tenant'', JNull)]),
                   (''payload'', JObj [(''intent'', JStr ''test'')]),
                   (''reasoning_md'', JNull)]"]
  have "\<not> valid inputSchema
     (JObj [(''payload'', JObj [(''intent'', JStr ''test'')]), (''strict_mode'', JBool False)])"
    using m by blast
  with c m show ?thesis
    by (simp add: Map_get_def unwrap_arguments_def call_throws_def budget_conversion_throws_def)
qed

subsection \<open>Decimal numerals and splitting at colons\<close>

lemma digit_char_code: "d < 10 \<Longrightarrow> (of_char (digit_char d) :: nat) = 48 + d"
  by (simp add: digit_char_def)

lemma show_nat_digits: "list_all is_digit (show_nat n)"
proof (induction n rule: show_nat.induct)
  case (1 n)
  show ?case
  proof (cases "n < 10")
    case True
    then show ?thesis
      by (subst show_nat.simps) (simp add: is_digit_def digit_char_code)
  next
    case False
    have "n mod 10 < 10" by simp
    then have "is_digit (digit_char (n mod 10))"
      by (simp add: is_digit_def digit_char_code)
    with False "1.IH" show ?thesis
      by (subst show_nat.simps) simp
  qed
qed

lemma show_nat_nonempty: "show_nat n \<noteq> []"
  by (subst show_nat.simps) simp

lemma show_nat_value: "decimal_value (show_nat n) = n"
proof (induction n rule: show_nat.induct)
  case (1 n)
  show ?case
  proof (cases "n < 10")
    case True
    then show ?thesis
      by (subst show_nat.simps) (simp add: decimal_value_def digit_char_code)
  next
    case False
    have "n mod 10 < 10" by simp
    then have "(of_char (digit_char (n mod 10)) :: nat) - 48 = n mod 10"
      by (simp add: digit_char_code)
    with False "1.IH" show ?thesis
      by (subst show_nat.simps) (simp add: decimal_value_def)
  qed
qed

lemma parse_show_nat: "parse_nat (show_nat n) = Some n"
  by (simp add: parse_nat_def show_nat_digits show_nat_nonempty show_nat_value)

lemma digit_not_colon: "is_digit c \<Longrightarrow> c \<noteq> CHR '':''"
  by (auto simp: is_digit_def)

lemma show_nat_no_colon: "CHR '':'' \<notin> set (show_nat n)"
  using show_nat_digits [of n] digit_not_colon by (auto simp: list_all_iff)

lemma split_colon_nonempty: "split_colon s \<noteq> []"
  by (induction s) (auto split: list.splits)

lemma split_colon_single: "CHR '':'' \<notin> set a \<Longrightarrow> split_colon a = [a]"
  by (induction a) auto

lemma split_colon_prefix:
  "CHR '':'' \<notin> set a \<Longrightarrow> split_colon (a @ CHR '':'' # rest) = a # split_colon rest"
  by (induction a) auto

lemma split_colon_three:
  assumes "CHR '':'' \<notin> set a" and "CHR '':'' \<notin> set b" and "CHR '':'' \<notin> set c"
  shows "split_colon (a @ '':'' @ b @ '':'' @ c) = [a, b, c]"
  using assms by (simp add: split_colon_prefix split_colon_single)

lemma split_colon_parts: "p \<in> set (split_colon s) \<Longrightarrow> CHR '':'' \<notin> set p"
proof (induction s arbitrary: p)
  case Nil
  then show ?case by simp
next
  case (Cons c cs)
  show ?case
  proof (cases "c = CHR '':''")
    case True
    with Cons show ?thesis by auto
  next
    case False
    obtain part parts where s: "split_colon cs = part # parts"
      using split_colon_nonempty [of cs] by (cases "split_colon cs") auto
    with Cons.prems False have "p = c # part \<or> p \<in> set parts" by simp
    then show ?thesis
      using Cons.IH [of part] Cons.IH [of p] s False by auto
  qed
qed

lemma split_colon_one: "split_colon s = [a] \<Longrightarrow> s = a"
proof (induction s arbitrary: a)
  case Nil
  then show ?case by simp
next
  case (Cons c cs)
  obtain part parts where s: "split_colon cs = part # parts"
    using split_colon_nonempty [of cs] by (cases "split_colon cs") auto
  show ?case
  proof (cases "c = CHR '':''")
    case True
    with Cons.prems s show ?thesis by simp
  next
    case False
    with Cons.prems s have "a = c # part" and "parts = []" by simp_all
    with Cons.IH [of part] s show ?thesis by simp
  qed
qed

lemma split_colon_more:
  "split_colon s = a # b # rest \<Longrightarrow> \<exists>s'. s = a @ CHR '':'' # s' \<and> split_colon s' = b # rest"
proof (induction s arbitrary: a)
  case Nil
  then show ?case by simp
next
  case (Cons c cs)
  show ?case
  proof (cases "c = CHR '':''")
    case True
    with Cons.prems show ?thesis by simp
  next
    case False
    obtain part parts where s: "split_colon cs = part # parts"
      using split_colon_nonempty [of cs] by (cases "split_colon cs") auto
    with Cons.prems False have a: "a = c # part" and p: "parts = b # rest" by simp_all
    from Cons.IH [of part] s p obtain s' where "cs = part @ CHR '':'' # s'"
      and "split_colon s' = b # rest" by auto
    with a show ?thesis by simp
  qed
qed

lemma split_colon_three_iff:
  "split_colon s = [a, b, c] \<longleftrightarrow>
     s = a @ '':'' @ b @ '':'' @ c \<and> colon_free a \<and> colon_free b \<and> colon_free c"
proof
  assume s: "split_colon s = [a, b, c]"
  from split_colon_more [OF s] obtain s1 where s1: "s = a @ CHR '':'' # s1"
    and r1: "split_colon s1 = [b, c]" by auto
  from split_colon_more [OF r1] obtain s2 where s2: "s1 = b @ CHR '':'' # s2"
    and r2: "split_colon s2 = [c]" by auto
  from split_colon_one [OF r2] have "s2 = c" .
  with s1 s2 have "s = a @ '':'' @ b @ '':'' @ c" by simp
  moreover have "colon_free a" "colon_free b" "colon_free c"
    using split_colon_parts [of _ s] s by (simp_all add: colon_free_def)
  ultimately show "s = a @ '':'' @ b @ '':'' @ c \<and> colon_free a \<and> colon_free b \<and> colon_free c"
    by simp
next
  assume "s = a @ '':'' @ b @ '':'' @ c \<and> colon_free a \<and> colon_free b \<and> colon_free c"
  then show "split_colon s = [a, b, c]"
    using split_colon_three [of a b c] by (simp add: colon_free_def)
qed

lemma digits_colon_free: "list_all is_digit s \<Longrightarrow> colon_free s"
  using digit_not_colon by (auto simp: colon_free_def list_all_iff)

lemma validate_csrf_token_iff:
  "validate_csrf_token hmac_sha256 SECRET now csrf \<longleftrightarrow>
     (\<exists>token timestamp signature.
        csrf = token @ '':'' @ timestamp @ '':'' @ signature
        \<and> colon_free token \<and> colon_free signature
        \<and> timestamp \<noteq> [] \<and> list_all is_digit timestamp
        \<and> signature = hmac_sha256 SECRET (token @ '':'' @ timestamp)
        \<and> \<bar>int now - int (decimal_value timestamp)\<bar> \<le> 3600)"
proof
  assume v: "validate_csrf_token hmac_sha256 SECRET now csrf"
  then obtain token timestamp signature where
    s: "split_colon csrf = [token, timestamp, signature]"
    by (auto simp: validate_csrf_token_def split: list.splits)
  with v have p: "timestamp \<noteq> [] \<and> list_all is_digit timestamp"
    and g: "signature = hmac_sha256 SECRET (token @ '':'' @ timestamp)"
    and w: "\<bar>int now - int (decimal_value timestamp)\<bar> \<le> 3600"
    by (auto simp: validate_csrf_token_def parse_nat_def CSRF_VALIDITY_def
        split: option.splits if_splits)
  from s have "csrf = token @ '':'' @ timestamp @ '':'' @ signature"
    and "colon_free token" and "colon_free signature"
    by (simp_all add: split_colon_three_iff)
  with p g w show "\<exists>token timestamp signature.
        csrf = token @ '':'' @ timestamp @ '':'' @ signature
        \<and> colon_free token \<and> colon_free signature
        \<and> timestamp \<noteq> [] \<and> list_all is_digit timestamp
        \<and> signature = hmac_sha256 SECRET (token @ '':'' @ timestamp)
        \<and> \<bar>int now - int (decimal_value timestamp)\<bar> \<le> 3600"
    by blast
next
  assume "\<exists>token timestamp signature.
        csrf = token @ '':'' @ timestamp @ '':'' @ signature
        \<and> colon_free token \<and> colon_free signature
        \<and> timestamp \<noteq> [] \<and> list_all is_digit timestamp
        \<and> signature = hmac_sha256 SECRET (token @ '':'' @ timestamp)
        \<and> \<bar>int now - int (decimal_value timestamp)\<bar> \<le> 3600"
  then obtain token timestamp signature where
    c: "csrf = token @ '':'' @ timestamp @ '':'' @ signature"
    and f: "colon_free token" "colon_free signature"
    and p: "timestamp \<noteq> []" "list_all is_digit timestamp"
    and g: "signature = hmac_sha256 SECRET (token @ '':'' @ timestamp)"
    and w: "\<bar>int now - int (decimal_value timestamp)\<bar> \<le> 3600"
    by blast
  from c f digits_colon_free [OF p(2)] have "split_colon csrf = [token, timestamp, signature]"
    by (simp add: split_colon_three_iff)
  with p g w show "validate_csrf_token hmac_sha256 SECRET now csrf"
    by (simp add: validate_csrf_token_def parse_nat_def CSRF_VALIDITY_def)
qed

lemma validate_generated:
  assumes "colon_free token"
    and "colon_free (hmac_sha256 SECRET (token @ '':'' @ show_nat issued))"
  shows "validate_csrf_token hmac_sha256 SECRET now (generate_csrf_token hmac_sha256 SECRET issued token)
           \<longleftrightarrow> \<bar>int now - int issued\<bar> \<le> 3600"
proof -
  have "split_colon (generate_csrf_token hmac_sha256 SECRET issued token)
          = [token, show_nat issued, hmac_sha256 SECRET (token @ '':'' @ show_nat issued)]"
    using assms digits_colon_free [OF show_nat_digits, of issued]
    by (simp add: split_colon_three_iff generate_csrf_token_def Let_def)
  then show ?thesis
    by (simp add: validate_csrf_token_def parse_show_nat CSRF_VALIDITY_def)
qed

subsection \<open>The claim about CSRF tokens\<close>

text \<open>
  C8.  A request is rejected with \<open>E_CSRF_FAILED\<close> exactly when its header differs from
  the cookie value, or the header is not a token of the form \<open>token:timestamp:signature\<close>
  (a decimal timestamp between two colon-free parts) whose signature is the HMAC-SHA256 of
  \<open>token:timestamp\<close> under the server secret, or the timestamp differs from now by more
  than 3600 seconds; otherwise it is not rejected.  This holds for every header and cookie,
  present or not.  A generated token, presented in header and cookie, is accepted exactly
  within 3600 seconds of its time of issue.
\<close>

theorem csrf_token_form_and_rejection:
  "csrf_protect hmac_sha256 SECRET now header cookie =
     (if header \<noteq> cookie
         \<or> \<not> (\<exists>token timestamp signature.
                header = Some (token @ '':'' @ timestamp @ '':'' @ signature)
                \<and> colon_free token \<and> colon_free signature
                \<and> timestamp \<noteq> [] \<and> list_all is_digit timestamp
                \<and> signature = hmac_sha256 SECRET (token @ '':'' @ timestamp)
                \<and> \<bar>int now - int (decimal_value timestamp)\<bar> \<le> 3600)
      then Inl E_CSRF_FAILED else Inr ())
   \<and> (colon_free token' \<and> colon_free (hmac_sha256 SECRET (token' @ '':'' @ show_nat issued)) \<longrightarrow>
        csrf_protect hmac_sha256 SECRET now
          (Some (generate_csrf_token hmac_sha256 SECRET issued token'))
          (Some (generate_csrf_token hmac_sha256 SECRET issued token'))
        = (if \<bar>int now - int issued\<bar> \<le> 3600 then Inr () else Inl E_CSRF_FAILED))"
proof (intro conjI impI)
  show "csrf_protect hmac_sha256 SECRET now header cookie =
     (if header \<noteq> cookie
         \<or> \<not> (\<exists>token timestamp signature.
                header = Some (token @ '':'' @ timestamp @ '':'' @ signature)
                \<and> colon_free token \<and> colon_free signature
                \<and> timestamp \<noteq> [] \<and> list_all is_digit timestamp
                \<and> signature = hmac_sha256 SECRET (token @ '':'' @ timestamp)
                \<and> \<bar>int now - int (decimal_value timestamp)\<bar> \<le> 3600)
      then Inl E_CSRF_FAILED else Inr ())"
  proof (cases "header = cookie")
    case False
    then show ?thesis by (simp add: csrf_protect_def)
  next
    case True
    show ?thesis
    proof (cases header)
      case None
      with True show ?thesis by (simp add: csrf_protect_def)
    next
      case (Some csrf)
      have e: "(\<exists>token timestamp signature.
                header = Some (token @ '':'' @ timestamp @ '':'' @ signature)
                \<and> colon_free token \<and> colon_free signature
                \<and> timestamp \<noteq> [] \<and> list_all is_digit timestamp
                \<and> signature = hmac_sha256 SECRET (token @ '':'' @ timestamp)
                \<and> \<bar>int now - int (decimal_value timestamp)\<bar> \<le> 3600)
             \<longleftrightarrow> validate_csrf_token hmac_sha256 SECRET now csrf"
        unfolding validate_csrf_token_iff Some by simp
      have "csrf_protect hmac_sha256 SECRET now header cookie
              = (if validate_csrf_token hmac_sha256 SECRET now csrf then Inr () else Inl E_CSRF_FAILED)"
        using True Some by (auto simp: csrf_protect_def)
      with True show ?thesis
        unfolding e by simp
    qed
  qed
next
  assume "colon_free token' \<and> colon_free (hmac_sha256 SECRET (token' @ '':'' @ show_nat issued))"
  then show "csrf_protect hmac_sha256 SECRET now
          (Some (generate_csrf_token hmac_sha256 SECRET issued token'))
          (Some (generate_csrf_token hmac_sha256 SECRET issued token'))
        = (if \<bar>int now - int issued\<bar> \<le> 3600 then Inr () else Inl E_CSRF_FAILED)"
    using validate_generated [of token' hmac_sha256 SECRET issued now]
    by (simp add: csrf_protect_def)
qed

text \<open>
  An instance: a token generated at time 1 700 000 000 and presented in header and cookie
  passes 3600 seconds later and is rejected one second after that; and a header that is
  not a token is rejected although the cookie equals it.
\<close>

theorem csrf_token_form_and_rejection_witness:
  "colon_free ''tok''
   \<and> colon_free (toy_mac ''secret'' (''tok'' @ '':'' @ show_nat 1700000000))
   \<and> csrf_protect toy_mac ''secret'' 1700003600
        (Some (generate_csrf_token toy_mac ''secret'' 1700000000 ''tok''))
        (Some (generate_csrf_token toy_mac ''secret'' 1700000000 ''tok'')) = Inr ()
   \<and> csrf_protect toy_mac ''secret'' 1700003601
        (Some (generate_csrf_token toy_mac ''secret'' 1700000000 ''tok''))
        (Some (generate_csrf_token toy_mac ''secret'' 1700000000 ''tok'')) = Inl E_CSRF_FAILED
   \<and> csrf_protect toy_mac ''secret'' 1700003600 (Some ''tok'')
        (Some (generate_csrf_token toy_mac ''secret'' 1700000000 ''tok'')) = Inl E_CSRF_FAILED"
proof -
  have c: "colon_free ''tok''
      \<and> colon_free (toy_mac ''secret'' (''tok'' @ '':'' @ show_nat 1700000000))"
    by (simp add: toy_mac_def colon_free_def)
  have n: "Some ''tok'' \<noteq> Some (generate_csrf_token toy_mac ''secret'' 1700000000 ''tok'')"
    by (simp add: generate_csrf_token_def Let_def)
  show ?thesis
    using c n
      csrf_token_form_and_rejection [THEN conjunct2, of "''tok''" toy_mac "''secret''"
        1700000000 1700003600]
      csrf_token_form_and_rejection [THEN conjunct2, of "''tok''" toy_mac "''secret''"
        1700000000 1700003601]
      csrf_token_form_and_rejection [THEN conjunct1, of toy_mac "''secret''" 1700003600
        "Some ''tok''" "Some (generate_csrf_token toy_mac ''secret'' 1700000000 ''tok'')"]
    by simp
qed

end
